theory Spec2Isabelle
  imports Main "HOL-Library.AList"
begin

section \<open>Data model\<close>

text \<open>
  Values stored in the fields of an untyped document (the collection
  \<^verbatim>\<open>mock_data_execution\<close> is opened without a schema): booleans, whole numbers
  and strings are all the seeding routine writes.
\<close>

datatype val = Bool bool | Num int | Str string

text \<open>
  A document is an association list from field names to values; a field that is not
  in the list is absent from the document. The \<^verbatim>\<open>_id\<close> is kept beside the document,
  as the key of the collection.
\<close>

type_synonym document = "(string \<times> val) list"

type_synonym objid = string

text \<open>
  \<^verbatim>\<open>Omit<ContactFormSubmission, "id">\<close>: the type of the documents of the collection
  \<^verbatim>\<open>contact_form_submissions\<close>.
\<close>

record submission_doc =
  name :: string
  email :: string
  subject :: string
  message :: string
  submission_timestamp :: int

text \<open>
  An error value as the code and the driver inspect it: its \<^verbatim>\<open>code\<close> property
  (absent, a number or a string), the text \<^verbatim>\<open>toString()\<close> gives, and whether it
  carries the label \<^verbatim>\<open>TransientTransactionError\<close>, which the driver puts on errors
  (network errors among them) after which a transaction may be tried again. The label
  is read by \<^verbatim>\<open>session.withTransaction\<close> only.
\<close>

datatype errcode = NoCode | NumCode int | StrCode string

record err =
  code :: errcode
  descr :: string
  transient :: bool

section \<open>The build-time batch (\<^verbatim>\<open>insertMockData\<close>, the list \<^verbatim>\<open>mockSubmissions\<close>)\<close>

text \<open>
  \<^verbatim>\<open>Date.now()\<close> is read once per item while the array literal is built; \<open>now i\<close>
  is the reading (in milliseconds) taken for the item at index \<open>i\<close>.
  \<^verbatim>\<open>Math.floor(Date.now() / 1000)\<close> is \<open>now i div 1000\<close>: \<open>div\<close> on \<open>int\<close> rounds down.
  Each item of the literal also carries a function \<^verbatim>\<open>toDocument\<close>; functions are not
  written to the database, so the stored document has the five data fields.
\<close>

definition mockSubmissions :: "(nat \<Rightarrow> int) \<Rightarrow> submission_doc list" where
  "mockSubmissions now =
    [ \<lparr> name = ''Rajesh Kumar'',
        email = ''rajesh.kumar@example.com'',
        subject = ''Collaboration Opportunity'',
        message = ''Hi Kaviya, I came across your portfolio and I'm impressed with your full-stack development skills. I'd like to discuss a potential collaboration on a MERN stack project. Please let me know if you're interested.'',
        submission_timestamp = now 0 div 1000 - 86400 * 7 \<rparr>,
      \<lparr> name = ''Priya Sharma'',
        email = ''priya.sharma@techcorp.com'',
        subject = ''Job Opportunity - Senior Full Stack Developer'',
        message = ''Hello Kaviya, We are looking for a talented Full Stack Developer to join our team. Your experience with React, Node.js, and MongoDB aligns perfectly with our requirements. Would you be available for a discussion?'',
        submission_timestamp = now 1 div 1000 - 86400 * 5 \<rparr>,
      \<lparr> name = ''Arun Patel'',
        email = ''arun.patel@startup.io'',
        subject = ''Freelance Project Inquiry'',
        message = ''Hi, I'm working on a weather application and noticed your weather project in your portfolio. I'd love to discuss a freelance opportunity to build something similar with additional features. Let me know your availability.'',
        submission_timestamp = now 2 div 1000 - 86400 * 3 \<rparr>,
      \<lparr> name = ''Sneha Reddy'',
        email = ''sneha.reddy@designstudio.com'',
        subject = ''UI/UX Collaboration'',
        message = ''Hello Kaviya, I'm a UI/UX designer and I'm impressed by your portfolio design. I'd like to collaborate on some projects where we can combine our skills. Are you open to freelance work?'',
        submission_timestamp = now 3 div 1000 - 86400 * 2 \<rparr>,
      \<lparr> name = ''Vikram Singh'',
        email = ''vikram.singh@gmail.com'',
        subject = ''Question about GitHub Profile Finder'',
        message = ''Hey Kaviya, I really liked your GitHub Profile Finder project. I'm a beginner developer and would love to know more about how you implemented it. Could you share some insights or resources?'',
        submission_timestamp = now 4 div 1000 - 86400 \<rparr>,
      \<lparr> name = ''Meera Iyer'',
        email = ''meera.iyer@webagency.com'',
        subject = ''Portfolio Website Development'',
        message = ''Hi Kaviya, Our agency is looking for a developer to build portfolio websites for our clients. Your portfolio is exactly the kind of quality we're looking for. Would you be interested in taking on such projects?'',
        submission_timestamp = now 5 div 1000 - 43200 \<rparr>,
      \<lparr> name = ''Karthik Menon'',
        email = ''karthik.menon@example.com'',
        subject = ''Mentorship Request'',
        message = ''Hello Kaviya, I'm a student learning full-stack development and I'm really inspired by your work. Would you be open to mentoring or providing guidance on my learning journey? I'd really appreciate any help.'',
        submission_timestamp = now 6 div 1000 - 21600 \<rparr>,
      \<lparr> name = ''Divya Nair'',
        email = ''divya.nair@techsolutions.in'',
        subject = ''Recipe Finder App - Partnership'',
        message = ''Hi Kaviya, I run a food blog and I'm interested in integrating a recipe finder feature similar to your project. Would you be interested in discussing a partnership or custom development work?'',
        submission_timestamp = now 7 div 1000 - 7200 \<rparr>,
      \<lparr> name = ''Arjun Desai'',
        email = ''arjun.desai@innovate.com'',
        subject = ''Speaking Opportunity at Tech Conference'',
        message = ''Hello Kaviya, We're organizing a tech conference in Coimbatore and would love to have you as a speaker to share your experience as a Full Stack Developer. Please let us know if you'd be interested.'',
        submission_timestamp = now 8 div 1000 - 3600 \<rparr>,
      \<lparr> name = ''Lakshmi Krishnan'',
        email = ''lakshmi.k@devteam.com'',
        subject = ''Budget Tracking App Inquiry'',
        message = ''Hi Kaviya, I saw your budget tracking application and I'm interested in having a similar app developed for our small business. Could we schedule a call to discuss the requirements and pricing?'',
        submission_timestamp = now 9 div 1000 - 1800 \<rparr> ]"

text \<open>The offsets (in seconds) subtracted from the clock, in list order.\<close>

definition offsets :: "int list" where
  "offsets = [604800, 432000, 259200, 172800, 86400, 43200, 21600, 7200, 3600, 1800]"

text \<open>All four required string fields of a submission are non-empty.\<close>

definition required_fields_nonempty :: "submission_doc \<Rightarrow> bool" where
  "required_fields_nonempty d \<longleftrightarrow>
     name d \<noteq> [] \<and> email d \<noteq> [] \<and> subject d \<noteq> [] \<and> message d \<noteq> []"

text \<open>The clock never runs backwards over the readings taken for the batch.\<close>

definition clock_monotone :: "(nat \<Rightarrow> int) \<Rightarrow> bool" where
  "clock_monotone now \<longleftrightarrow> sorted (map now [0..<10])"

section \<open>The datastore\<close>

text \<open>
  A collection is the list of its documents in insertion order, each with its \<^verbatim>\<open>_id\<close>.
  The database holds the two collections the code opens by name.
\<close>

type_synonym 'd collection = "(objid \<times> 'd) list"

record database =
  mock_data_execution :: "document collection"
  contact_form_submissions :: "submission_doc collection"

text \<open>
  The update documents the code passes to \<^verbatim>\<open>updateOne\<close>: the fields under \<^verbatim>\<open>$set\<close>
  and the fields under \<^verbatim>\<open>$setOnInsert\<close>.
\<close>

record update_doc =
  dollar_set :: document
  dollar_setOnInsert :: document

record update_result =
  matchedCount :: nat
  upsertedCount :: nat

text \<open>Writing a list of fields into a document: each one is overwritten or added.\<close>

definition write_fields :: "document \<Rightarrow> document \<Rightarrow> document" where
  "write_fields fs d = fold (\<lambda>(k, v). AList.update k v) fs d"

text \<open>
  \<^verbatim>\<open>collection.updateOne({ _id: i }, u, { upsert })\<close> as the driver documents it. On a
  match the \<^verbatim>\<open>$set\<close> fields are written into the first document with that \<^verbatim>\<open>_id\<close>
  and \<^verbatim>\<open>$setOnInsert\<close> is ignored. With no match and \<^verbatim>\<open>upsert\<close>, a document is
  inserted that holds the fields of both operators. With no match and no \<^verbatim>\<open>upsert\<close>
  nothing is written.
\<close>

definition updateOne ::
  "document collection \<Rightarrow> objid \<Rightarrow> update_doc \<Rightarrow> bool \<Rightarrow> document collection \<times> update_result" where
  "updateOne c i u upsert =
     (case map_of c i of
        Some d \<Rightarrow>
          (AList.update i (write_fields (dollar_set u) d) c,
           \<lparr> matchedCount = 1, upsertedCount = 0 \<rparr>)
      | None \<Rightarrow>
          if upsert
          then (c @ [(i, write_fields (dollar_setOnInsert u) (write_fields (dollar_set u) []))],
                \<lparr> matchedCount = 0, upsertedCount = 1 \<rparr>)
          else (c, \<lparr> matchedCount = 0, upsertedCount = 0 \<rparr>))"

text \<open>
  \<^verbatim>\<open>collection.insertMany(docs)\<close>: the documents are appended in order, the \<open>k\<close>-th
  one under the identifier \<open>new_id k\<close> that the driver generates for it.
\<close>

definition insertMany ::
  "'d collection \<Rightarrow> (nat \<Rightarrow> objid) \<Rightarrow> 'd list \<Rightarrow> 'd collection" where
  "insertMany c new_id docs = c @ zip (map new_id [0..<length docs]) docs"

section \<open>Sessions and transactions\<close>

text \<open>
  A write as the datastore receives it: documents to append to
  \<^verbatim>\<open>contact_form_submissions\<close>, each with its identifier, or an \<^verbatim>\<open>updateOne\<close> on
  \<^verbatim>\<open>mock_data_execution\<close>.
\<close>

datatype operation =
    Write_insertMany "(objid \<times> submission_doc) list"
  | Write_updateOne objid update_doc bool

fun apply_write :: "operation \<Rightarrow> database \<Rightarrow> database" where
  "apply_write (Write_insertMany ds) d =
     d\<lparr> contact_form_submissions := contact_form_submissions d @ ds \<rparr>"
| "apply_write (Write_updateOne i u upsert) d =
     d\<lparr> mock_data_execution := fst (updateOne (mock_data_execution d) i u upsert) \<rparr>"

text \<open>The calls made to the datastore client, in the order made. The last argument of a
  write says whether the call was given the \<^verbatim>\<open>session\<close> option.\<close>

datatype call =
    Call_getDb
  | Call_updateOne update_doc bool bool
  | Call_getClient
  | Call_startSession
  | Call_withTransaction
  | Call_insertMany "submission_doc list" bool
  | Call_endSession

text \<open>
  What one process and the datastore hold: the module-level flag
  \<^verbatim>\<open>populationAttempted\<close>, the database, the writes of the session's open transaction
  (not yet in the database), and the calls made so far.
\<close>

record state =
  populationAttempted :: bool
  db :: database
  pending :: "operation list"
  calls :: "call list"

definition log_call :: "call \<Rightarrow> state \<Rightarrow> state" where
  "log_call c s = s\<lparr> calls := calls s @ [c] \<rparr>"

text \<open>
  A write made with the \<^verbatim>\<open>session\<close> option joins the transaction of the session; a
  write made without it is applied to the database at once, whatever the session does
  later.
\<close>

definition write_op :: "bool \<Rightarrow> operation \<Rightarrow> state \<Rightarrow> state" where
  "write_op session w s =
     (if session then s\<lparr> pending := pending s @ [w] \<rparr>
      else s\<lparr> db := apply_write w (db s) \<rparr>)"

text \<open>
  The transaction of the session: starting it opens an empty list of writes; aborting
  drops the writes; committing applies them to the database, in order and together.
\<close>

definition startTransaction :: "state \<Rightarrow> state" where
  "startTransaction s = s\<lparr> pending := [] \<rparr>"

definition abortTransaction :: "state \<Rightarrow> state" where
  "abortTransaction s = s\<lparr> pending := [] \<rparr>"

definition commitTransaction :: "state \<Rightarrow> state" where
  "commitTransaction s = s\<lparr> db := fold apply_write (pending s) (db s), pending := [] \<rparr>"

section \<open>The seeding routine (\<^verbatim>\<open>mockdata.ts\<close>)\<close>

text \<open>
  What the surroundings answer during one run of the transaction callback. Every
  awaited call either returns or throws: \<open>None\<close> is a normal return, \<open>Some e\<close> the
  error thrown. A failed \<^verbatim>\<open>insertMany\<close> has written \<open>insertMany_written\<close> documents
  before failing. \<open>commit_throws\<close> is the error with which the driver's commit ends,
  after its own repetitions of the commit. The clock readings are in milliseconds,
  one per \<^verbatim>\<open>Date.now()\<close> in the code; \<open>new_id k\<close> is the identifier the driver
  generates for the \<open>k\<close>-th document.
\<close>

record attempt =
  insertMany_throws :: "err option"
  insertMany_written :: nat
  updateOne_completed_throws :: "err option"
  commit_throws :: "err option"
  now_batch :: "nat \<Rightarrow> int"
  now_completed :: int
  new_id :: "nat \<Rightarrow> objid"

text \<open>
  What the surroundings answer during one invocation. The callback is run at least
  once (\<open>first_attempt\<close>); \<open>later_attempts\<close> are the answers to the runs that the
  driver's time limit for \<^verbatim>\<open>withTransaction\<close> leaves room for, should it run the
  callback again. \<open>random_token\<close> is \<^verbatim>\<open>Math.random().toString(36).substring(2, 15)\<close>.
\<close>

record env =
  getDb_throws :: "err option"
  updateOne_lock_throws :: "err option"
  getClient_throws :: "err option"
  startSession_throws :: "err option"
  first_attempt :: attempt
  later_attempts :: "attempt list"
  updateOne_failed_throws :: "err option"
  now_lock :: int
  now_failed :: int
  random_token :: string

text \<open>\<^verbatim>\<open>new ObjectId("000000000000000000000001")\<close>, the fixed identifier of the flag record.\<close>

definition seed_id :: objid where
  "seed_id = ''000000000000000000000001''"

text \<open>The documents of a batch with the identifiers the driver gives them.\<close>

definition identified :: "(nat \<Rightarrow> objid) \<Rightarrow> 'd list \<Rightarrow> (objid \<times> 'd) list" where
  "identified ids docs = zip (map ids [0..<length docs]) docs"

text \<open>
  \<^verbatim>\<open>insertMockData(db, session)\<close>: builds the list and awaits
  \<^verbatim>\<open>insertMany(mockSubmissions, { session })\<close>. When the call throws, the documents
  written before the failure are among the writes of the transaction.
\<close>

definition insertMockData :: "attempt \<Rightarrow> state \<Rightarrow> (err + unit) \<times> state" where
  "insertMockData a s =
     (let docs = mockSubmissions (now_batch a);
          s1 = log_call (Call_insertMany docs True) s
      in case insertMany_throws a of
           Some e \<Rightarrow>
             (Inl e,
              write_op True
                (Write_insertMany (identified (new_id a) (take (insertMany_written a) docs))) s1)
         | None \<Rightarrow>
             (Inr (), write_op True (Write_insertMany (identified (new_id a) docs)) s1))"

text \<open>The three update documents of the routine.\<close>

definition lock_update :: "env \<Rightarrow> update_doc" where
  "lock_update env =
     \<lparr> dollar_set = [],
       dollar_setOnInsert =
         [(''executed'', Bool True),
          (''timestamp'', Num (now_lock env div 1000)),
          (''instance'', Str (''instance-'' @ random_token env))] \<rparr>"

definition completed_update :: "attempt \<Rightarrow> update_doc" where
  "completed_update a =
     \<lparr> dollar_set =
         [(''completed'', Bool True),
          (''completedTimestamp'', Num (now_completed a div 1000))],
       dollar_setOnInsert = [] \<rparr>"

definition failed_update :: "env \<Rightarrow> err \<Rightarrow> update_doc" where
  "failed_update env error =
     \<lparr> dollar_set =
         [(''failed'', Bool True),
          (''failedTimestamp'', Num (now_failed env div 1000)),
          (''error'', Str (descr error))],
       dollar_setOnInsert = [] \<rparr>"

text \<open>
  The callback given to \<^verbatim>\<open>session.withTransaction\<close>: the batch insert, then the
  update that marks the flag record completed, both with \<^verbatim>\<open>{ session }\<close>.
\<close>

definition transaction_callback :: "attempt \<Rightarrow> state \<Rightarrow> (err + unit) \<times> state" where
  "transaction_callback a s =
     (case insertMockData a s of
        (Inl e, s1) \<Rightarrow> (Inl e, s1)
      | (Inr u, s1) \<Rightarrow>
          (let s2 = log_call (Call_updateOne (completed_update a) False True) s1
           in case updateOne_completed_throws a of
                Some e \<Rightarrow> (Inl e, s2)
              | None \<Rightarrow>
                  (Inr (), write_op True (Write_updateOne seed_id (completed_update a) False) s2)))"

text \<open>
  One run of the callback inside \<^verbatim>\<open>session.withTransaction\<close>: the driver starts a
  transaction, runs the callback, and commits when the callback returns; it aborts when
  the callback or the commit throws.
\<close>

definition run_attempt ::
  "(attempt \<Rightarrow> state \<Rightarrow> (err + unit) \<times> state) \<Rightarrow> attempt \<Rightarrow> state \<Rightarrow> (err + unit) \<times> state" where
  "run_attempt callback a s =
     (case callback a (startTransaction s) of
        (Inl e, s1) \<Rightarrow> (Inl e, abortTransaction s1)
      | (Inr u, s1) \<Rightarrow>
          (case commit_throws a of
             Some e \<Rightarrow> (Inl e, abortTransaction s1)
           | None \<Rightarrow> (Inr (), commitTransaction s1)))"

text \<open>
  \<^verbatim>\<open>session.withTransaction(callback)\<close> as the driver documents it: when a run ends
  in an error that carries the label \<^verbatim>\<open>TransientTransactionError\<close> and the time limit
  leaves room for another run, the callback is run again in a new transaction; any
  other error, and a labelled one when no run is left, is thrown to the caller.
\<close>

fun withTransaction ::
  "(attempt \<Rightarrow> state \<Rightarrow> (err + unit) \<times> state) \<Rightarrow> attempt \<Rightarrow> attempt list \<Rightarrow> state \<Rightarrow>
     (err + unit) \<times> state" where
  "withTransaction callback a [] s = run_attempt callback a s"
| "withTransaction callback a (a1 # later) s =
     (case run_attempt callback a s of
        (Inl e, s1) \<Rightarrow>
          if transient e then withTransaction callback a1 later s1 else (Inl e, s1)
      | (Inr u, s1) \<Rightarrow> (Inr (), s1))"

text \<open>
  The inner \<^verbatim>\<open>try { withTransaction } catch { mark failed; throw } finally { endSession }\<close>.
  The update in the catch block is made without the session; what it throws is
  logged and dropped.
\<close>

definition run_transaction :: "env \<Rightarrow> state \<Rightarrow> (err + unit) \<times> state" where
  "run_transaction env s =
     (case withTransaction transaction_callback (first_attempt env) (later_attempts env)
             (log_call Call_withTransaction s) of
        (Inr u, s1) \<Rightarrow> (Inr (), log_call Call_endSession s1)
      | (Inl error, s1) \<Rightarrow>
          (let s2 = log_call (Call_updateOne (failed_update env error) False False) s1;
               s3 = (case updateOne_failed_throws env of
                       Some updateError \<Rightarrow> s2
                     | None \<Rightarrow>
                         write_op False
                           (Write_updateOne seed_id (failed_update env error) False) s2)
           in (Inl error, log_call Call_endSession s3)))"

text \<open>
  The body of the outer \<^verbatim>\<open>try\<close>: the conditional insert of the flag record (made
  without a session), the early return when nothing was inserted, then the session
  and the transaction.
\<close>

definition try_block :: "env \<Rightarrow> state \<Rightarrow> (err + unit) \<times> state" where
  "try_block env s =
     (let s1 = log_call (Call_updateOne (lock_update env) True False) s
      in case updateOne_lock_throws env of
           Some e \<Rightarrow> (Inl e, s1)
         | None \<Rightarrow>
             (let result = snd (updateOne (mock_data_execution (db s1)) seed_id
                                  (lock_update env) True);
                  s2 = write_op False (Write_updateOne seed_id (lock_update env) True) s1
              in if upsertedCount result = 0 then (Inr (), s2)
                 else
                   (let s3 = log_call Call_getClient s2
                    in case getClient_throws env of
                         Some e \<Rightarrow> (Inl e, s3)
                       | None \<Rightarrow>
                           (let s4 = log_call Call_startSession s3
                            in case startSession_throws env of
                                 Some e \<Rightarrow> (Inl e, s4)
                               | None \<Rightarrow> run_transaction env s4))))"

text \<open>
  \<^verbatim>\<open>populate_with_mock_data()\<close>. \<open>Inr ()\<close> is a normal return, \<open>Inl e\<close> the error
  thrown to the caller. \<^verbatim>\<open>getDb\<close> is awaited before the outer \<^verbatim>\<open>try\<close>; the outer
  \<^verbatim>\<open>catch\<close> returns normally on an error whose \<^verbatim>\<open>code\<close> is the number 11000 and throws
  every other error again.
\<close>

definition populate_with_mock_data :: "env \<Rightarrow> state \<Rightarrow> (err + unit) \<times> state" where
  "populate_with_mock_data env s =
     (if populationAttempted s then (Inr (), s)
      else
        (let s1 = log_call Call_getDb (s\<lparr> populationAttempted := True \<rparr>)
         in case getDb_throws env of
              Some e \<Rightarrow> (Inl e, s1)
            | None \<Rightarrow>
                (case try_block env s1 of
                   (Inr u, s2) \<Rightarrow> (Inr (), s2)
                 | (Inl error, s2) \<Rightarrow>
                     if code error = NumCode 11000 then (Inr (), s2)
                     else (Inl error, s2))))"

section \<open>Reading a run\<close>

text \<open>How many of the calls in a log are batch inserts.\<close>

fun is_batch_insert :: "call \<Rightarrow> bool" where
  "is_batch_insert (Call_insertMany docs session) = True"
| "is_batch_insert c = False"

definition batch_inserts :: "call list \<Rightarrow> nat" where
  "batch_inserts cs = length (filter is_batch_insert cs)"

text \<open>The error with which one run of the callback and its commit ends, if it does.\<close>

definition attempt_error :: "attempt \<Rightarrow> err option" where
  "attempt_error a =
     (case insertMany_throws a of
        Some e \<Rightarrow> Some e
      | None \<Rightarrow>
          (case updateOne_completed_throws a of
             Some e \<Rightarrow> Some e
           | None \<Rightarrow> commit_throws a))"

text \<open>
  How \<^verbatim>\<open>withTransaction\<close> ends on given answers: with the error thrown to the caller,
  or with the run that committed.
\<close>

fun outcome :: "attempt \<Rightarrow> attempt list \<Rightarrow> err + attempt" where
  "outcome a [] = (case attempt_error a of Some e \<Rightarrow> Inl e | None \<Rightarrow> Inr a)"
| "outcome a (a1 # later) =
     (case attempt_error a of
        Some e \<Rightarrow> if transient e then outcome a1 later else Inl e
      | None \<Rightarrow> Inr a)"

definition transaction_error :: "env \<Rightarrow> err option" where
  "transaction_error env =
     (case outcome (first_attempt env) (later_attempts env) of
        Inl e \<Rightarrow> Some e | Inr a \<Rightarrow> None)"

definition committed_attempt :: "env \<Rightarrow> attempt option" where
  "committed_attempt env =
     (case outcome (first_attempt env) (later_attempts env) of
        Inl e \<Rightarrow> None | Inr a \<Rightarrow> Some a)"

text \<open>The writes one run of the callback adds to the transaction of the session.\<close>

definition callback_writes :: "attempt \<Rightarrow> operation list" where
  "callback_writes a =
     (case insertMany_throws a of
        Some e \<Rightarrow>
          [Write_insertMany
             (identified (new_id a) (take (insertMany_written a) (mockSubmissions (now_batch a))))]
      | None \<Rightarrow>
          Write_insertMany (identified (new_id a) (mockSubmissions (now_batch a))) #
            (if updateOne_completed_throws a = None
             then [Write_updateOne seed_id (completed_update a) False] else []))"

text \<open>The calls one run of the callback makes, and the calls of all the runs made.\<close>

definition attempt_calls :: "attempt \<Rightarrow> call list" where
  "attempt_calls a =
     Call_insertMany (mockSubmissions (now_batch a)) True #
       (if insertMany_throws a = None
        then [Call_updateOne (completed_update a) False True] else [])"

fun transaction_calls :: "attempt \<Rightarrow> attempt list \<Rightarrow> call list" where
  "transaction_calls a [] = attempt_calls a"
| "transaction_calls a (a1 # later) =
     attempt_calls a @
       (case attempt_error a of
          Some e \<Rightarrow> if transient e then transaction_calls a1 later else []
        | None \<Rightarrow> [])"

text \<open>The database after the transaction of run \<open>a\<close> has committed.\<close>

definition committed :: "attempt \<Rightarrow> database \<Rightarrow> database" where
  "committed a d =
     \<lparr> mock_data_execution =
         fst (updateOne (mock_data_execution d) seed_id (completed_update a) False),
       contact_form_submissions =
         insertMany (contact_form_submissions d) (new_id a) (mockSubmissions (now_batch a)) \<rparr>"

text \<open>The database after the failure-status update has been applied.\<close>

definition marked_failed :: "env \<Rightarrow> err \<Rightarrow> database \<Rightarrow> database" where
  "marked_failed env error d =
     d\<lparr> mock_data_execution :=
         fst (updateOne (mock_data_execution d) seed_id (failed_update env error) False) \<rparr>"

text \<open>Setting one collection of the database of a state.\<close>

definition set_mock_data_execution :: "document collection \<Rightarrow> state \<Rightarrow> state" where
  "set_mock_data_execution c s = s\<lparr> db := (db s)\<lparr> mock_data_execution := c \<rparr> \<rparr>"

text \<open>
  The state in which the session is open and the transaction about to start, for a
  process that found no flag record and inserted it.
\<close>

definition lock_acquired :: "env \<Rightarrow> state \<Rightarrow> state" where
  "lock_acquired env s =
     log_call Call_startSession (log_call Call_getClient
       (set_mock_data_execution
          (mock_data_execution (db s) @
             [(seed_id, write_fields (dollar_setOnInsert (lock_update env)) [])])
          (log_call (Call_updateOne (lock_update env) True False)
             (log_call Call_getDb (s\<lparr> populationAttempted := True \<rparr>)))))"

text \<open>The calls that lead to the transaction all return.\<close>

definition reaches_transaction :: "env \<Rightarrow> bool" where
  "reaches_transaction env \<longleftrightarrow>
     getDb_throws env = None \<and> updateOne_lock_throws env = None \<and>
     getClient_throws env = None \<and> startSession_throws env = None"

text \<open>
  The completion update throws in every run of the callback the answers provide for,
  the batch insert before it returning.
\<close>

definition completion_always_throws :: "env \<Rightarrow> bool" where
  "completion_always_throws env \<longleftrightarrow>
     list_all (\<lambda>a. insertMany_throws a = None \<and> updateOne_completed_throws a \<noteq> None)
       (first_attempt env # later_attempts env)"

section \<open>Concrete inputs\<close>

text \<open>A datastore that was never used, in a process that has not tried to seed.\<close>

definition fresh_database :: database where
  "fresh_database = \<lparr> mock_data_execution = [], contact_form_submissions = [] \<rparr>"

definition fresh :: state where
  "fresh = \<lparr> populationAttempted = False, db = fresh_database, pending = [], calls = [] \<rparr>"

text \<open>Identifiers as a driver might generate them: 24 hexadecimal digits.\<close>

definition example_new_id :: "nat \<Rightarrow> objid" where
  "example_new_id k =
     ''65f0c0ffee000000000000'' @
       [''0123456789abcdef'' ! (k div 16 mod 16), ''0123456789abcdef'' ! (k mod 16)]"

text \<open>Every call returns; the clock reads 2023-11-14 22:13:20 UTC throughout.\<close>

definition attempt_ok :: attempt where
  "attempt_ok =
     \<lparr> insertMany_throws = None, insertMany_written = 0,
       updateOne_completed_throws = None, commit_throws = None,
       now_batch = (\<lambda>i. 1700000000000), now_completed = 1700000000000,
       new_id = example_new_id \<rparr>"

definition env_ok :: env where
  "env_ok =
     \<lparr> getDb_throws = None, updateOne_lock_throws = None, getClient_throws = None,
       startSession_throws = None, first_attempt = attempt_ok, later_attempts = [],
       updateOne_failed_throws = None,
       now_lock = 1700000000000, now_failed = 1700000000000,
       random_token = ''k3x9q2m7p1z'' \<rparr>"

text \<open>
  Two errors: a duplicate-key write error of the server, which is not labelled
  transient, and a lost connection, which is.
\<close>

definition duplicate_key_error :: err where
  "duplicate_key_error =
     \<lparr> code = NumCode 11000, descr = ''MongoBulkWriteError: E11000 duplicate key error'',
       transient = False \<rparr>"

definition network_error :: err where
  "network_error =
     \<lparr> code = StrCode ''ECONNRESET'', descr = ''MongoNetworkError: connection closed'',
       transient = True \<rparr>"

text \<open>The flag record as the conditional insert writes it under \<open>env_ok\<close>.\<close>

definition locked_record :: document where
  "locked_record =
     [(''executed'', Bool True), (''timestamp'', Num 1700000000),
      (''instance'', Str ''instance-k3x9q2m7p1z'')]"

text \<open>A datastore in which seeding has been started by some process.\<close>

definition seeded :: state where
  "seeded =
     \<lparr> populationAttempted = False,
       db = \<lparr> mock_data_execution = [(seed_id, locked_record)],
              contact_form_submissions = [] \<rparr>,
       pending = [], calls = [] \<rparr>"

text \<open>The batch insert hits a duplicate key; everything else returns.\<close>

definition env_duplicate_key :: env where
  "env_duplicate_key =
     env_ok\<lparr> first_attempt :=
       attempt_ok\<lparr> insertMany_throws := Some duplicate_key_error, insertMany_written := 3 \<rparr> \<rparr>"

text \<open>The same, and the connection is lost before the failure can be recorded.\<close>

definition env_duplicate_key_then_outage :: env where
  "env_duplicate_key_then_outage =
     env_duplicate_key\<lparr> updateOne_failed_throws := Some network_error \<rparr>"

text \<open>
  The completion update loses its connection in the first run of the callback and in
  the one further run the driver makes.
\<close>

definition attempt_completion_fails :: attempt where
  "attempt_completion_fails = attempt_ok\<lparr> updateOne_completed_throws := Some network_error \<rparr>"

definition env_completion_fails :: env where
  "env_completion_fails =
     env_ok\<lparr> first_attempt := attempt_completion_fails,
             later_attempts := [attempt_completion_fails] \<rparr>"

text \<open>
  The completion update loses its connection in the first run of the callback; the
  driver runs the callback again and everything returns.
\<close>

definition env_completion_fails_once :: env where
  "env_completion_fails_once =
     env_ok\<lparr> first_attempt := attempt_completion_fails, later_attempts := [attempt_ok] \<rparr>"

text \<open>The datastore cannot be reached for the conditional insert.\<close>

definition env_lock_outage :: env where
  "env_lock_outage = env_ok\<lparr> updateOne_lock_throws := Some network_error \<rparr>"

section \<open>The model class \<^verbatim>\<open>ContactFormSubmission\<close>\<close>

text \<open>
  An instance of the class: the fields of the stored document and \<^verbatim>\<open>id\<close>, the
  \<^verbatim>\<open>_id\<close> as a hexadecimal string.
\<close>

record ContactFormSubmission = submission_doc +
  id' :: string

text \<open>
  \<^verbatim>\<open>Partial<Omit<ContactFormSubmission, 'id'>>\<close>, the type of \<^verbatim>\<open>updateFields\<close>: each
  field of a stored document may be given or left out.
\<close>

record update_fields =
  set_name :: "string option"
  set_email :: "string option"
  set_subject :: "string option"
  set_message :: "string option"
  set_submission_timestamp :: "int option"

text \<open>
  \<^verbatim>\<open>new ObjectId(id)\<close> for a string: it throws unless the string is 24 hexadecimal
  digits; the identifier prints in lower case (\<^verbatim>\<open>toHexString\<close>).
\<close>

definition is_hex :: "char \<Rightarrow> bool" where
  "is_hex c \<longleftrightarrow> c \<in> set ''0123456789abcdefABCDEF''"

definition to_lower_hex :: "char \<Rightarrow> char" where
  "to_lower_hex c =
     (if c = CHR ''A'' then CHR ''a'' else if c = CHR ''B'' then CHR ''b''
      else if c = CHR ''C'' then CHR ''c'' else if c = CHR ''D'' then CHR ''d''
      else if c = CHR ''E'' then CHR ''e'' else if c = CHR ''F'' then CHR ''f''
      else c)"

definition bson_error :: err where
  "bson_error =
     \<lparr> code = NoCode,
       descr = ''BSONError: input must be a 24 character hex string, 12 byte Uint8Array, or an integer'',
       transient = False \<rparr>"

definition ObjectId :: "string \<Rightarrow> err + objid" where
  "ObjectId s =
     (if length s = 24 \<and> list_all is_hex s then Inr (map to_lower_hex s)
      else Inl bson_error)"

text \<open>
  What the surroundings answer during one call of a static method: whether
  \<^verbatim>\<open>getDb\<close> throws, whether the call on the collection throws (it has then written
  nothing), whether the insert was acknowledged, the identifier the driver gave the
  inserted document, and \<^verbatim>\<open>Date.now()\<close> in milliseconds.
\<close>

record store_env =
  db_throws :: "err option"
  op_throws :: "err option"
  acknowledged :: bool
  insertedId :: objid
  clock_ms :: int

text \<open>The calls on the collection, as the driver documents them.\<close>

definition findOne :: "'d collection \<Rightarrow> objid \<Rightarrow> (objid \<times> 'd) option" where
  "findOne c i = find (\<lambda>p. fst p = i) c"

definition dollar_set_fields :: "update_fields \<Rightarrow> submission_doc \<Rightarrow> submission_doc" where
  "dollar_set_fields f d =
     \<lparr> name = (case set_name f of Some v \<Rightarrow> v | None \<Rightarrow> name d),
       email = (case set_email f of Some v \<Rightarrow> v | None \<Rightarrow> email d),
       subject = (case set_subject f of Some v \<Rightarrow> v | None \<Rightarrow> subject d),
       message = (case set_message f of Some v \<Rightarrow> v | None \<Rightarrow> message d),
       submission_timestamp =
         (case set_submission_timestamp f of Some v \<Rightarrow> v | None \<Rightarrow> submission_timestamp d) \<rparr>"

text \<open>
  \<^verbatim>\<open>findOneAndUpdate({ _id: i }, { $set: f }, { returnDocument: 'after' })\<close>: the
  first document with that \<^verbatim>\<open>_id\<close> is updated and returned as updated; without one,
  nothing is written and the result is \<^verbatim>\<open>null\<close>. (The method hands the result to
  \<^verbatim>\<open>fromDocument\<close>, so it is written for a driver that returns the document itself.)
\<close>

fun findOneAndUpdate ::
  "submission_doc collection \<Rightarrow> objid \<Rightarrow> update_fields \<Rightarrow>
     submission_doc collection \<times> (objid \<times> submission_doc) option" where
  "findOneAndUpdate [] i f = ([], None)"
| "findOneAndUpdate (p # ps) i f =
     (if fst p = i
      then ((i, dollar_set_fields f (snd p)) # ps, Some (i, dollar_set_fields f (snd p)))
      else (p # fst (findOneAndUpdate ps i f), snd (findOneAndUpdate ps i f)))"

text \<open>\<^verbatim>\<open>deleteOne({ _id: i })\<close>: the first document with that \<^verbatim>\<open>_id\<close> is removed.\<close>

fun deleteOne :: "'d collection \<Rightarrow> objid \<Rightarrow> 'd collection \<times> nat" where
  "deleteOne [] i = ([], 0)"
| "deleteOne (p # ps) i =
     (if fst p = i then (ps, 1)
      else (p # fst (deleteOne ps i), snd (deleteOne ps i)))"

text \<open>\<^verbatim>\<open>fromDocument(doc)\<close>.\<close>

definition fromDocument :: "(objid \<times> submission_doc) option \<Rightarrow> ContactFormSubmission option" where
  "fromDocument doc =
     (case doc of
        None \<Rightarrow> None
      | Some (i, d) \<Rightarrow>
          Some \<lparr> name = name d, email = email d, subject = subject d, message = message d,
                 submission_timestamp = submission_timestamp d, id' = i \<rparr>)"

text \<open>
  The \<^verbatim>\<open>catch\<close> of the static methods: the error is logged and the method returns
  the given value (\<^verbatim>\<open>null\<close>, or \<^verbatim>\<open>false\<close> for \<^verbatim>\<open>delete\<close>).
\<close>

definition catch_return :: "'a \<Rightarrow> (err + 'a) \<times> database \<Rightarrow> (err + 'a) \<times> database" where
  "catch_return v r = (case r of (Inl error, d) \<Rightarrow> (Inr v, d) | (Inr x, d) \<Rightarrow> (Inr x, d))"

text \<open>
  \<^verbatim>\<open>ContactFormSubmission.create\<close>: the body of its \<^verbatim>\<open>try\<close>, then the method. The
  test \<^verbatim>\<open>result.acknowledged && result.insertedId\<close> is \<open>acknowledged env\<close>: an
  identifier, when the insert returns, is an object and so is truthy.
\<close>

definition create_try ::
  "store_env \<Rightarrow> string \<Rightarrow> string \<Rightarrow> string \<Rightarrow> string \<Rightarrow> database \<Rightarrow>
     (err + ContactFormSubmission option) \<times> database" where
  "create_try env n e sj m d =
     (case db_throws env of
        Some x \<Rightarrow> (Inl x, d)
      | None \<Rightarrow>
          (let ts = clock_ms env div 1000;
               newSubmissionData =
                 \<lparr> name = n, email = e, subject = sj, message = m, submission_timestamp = ts \<rparr>
           in case op_throws env of
                Some x \<Rightarrow> (Inl x, d)
              | None \<Rightarrow>
                  (let d1 = d\<lparr> contact_form_submissions :=
                               contact_form_submissions d @ [(insertedId env, newSubmissionData)] \<rparr>
                   in if acknowledged env
                      then (Inr (Some \<lparr> name = n, email = e, subject = sj, message = m,
                                        submission_timestamp = ts, id' = insertedId env \<rparr>), d1)
                      else (Inr None, d1))))"

definition create ::
  "store_env \<Rightarrow> string \<Rightarrow> string \<Rightarrow> string \<Rightarrow> string \<Rightarrow> database \<Rightarrow>
     (err + ContactFormSubmission option) \<times> database" where
  "create env n e sj m d = catch_return None (create_try env n e sj m d)"

text \<open>\<^verbatim>\<open>ContactFormSubmission.get_by_id\<close>.\<close>

definition get_by_id_try ::
  "store_env \<Rightarrow> string \<Rightarrow> database \<Rightarrow> (err + ContactFormSubmission option) \<times> database" where
  "get_by_id_try env i d =
     (case db_throws env of
        Some x \<Rightarrow> (Inl x, d)
      | None \<Rightarrow>
          (case ObjectId i of
             Inl x \<Rightarrow> (Inl x, d)
           | Inr oid \<Rightarrow>
               (case op_throws env of
                  Some x \<Rightarrow> (Inl x, d)
                | None \<Rightarrow> (Inr (fromDocument (findOne (contact_form_submissions d) oid)), d))))"

definition get_by_id ::
  "store_env \<Rightarrow> string \<Rightarrow> database \<Rightarrow> (err + ContactFormSubmission option) \<times> database" where
  "get_by_id env i d = catch_return None (get_by_id_try env i d)"

text \<open>\<^verbatim>\<open>ContactFormSubmission.update\<close>.\<close>

definition update_try ::
  "store_env \<Rightarrow> string \<Rightarrow> update_fields \<Rightarrow> database \<Rightarrow>
     (err + ContactFormSubmission option) \<times> database" where
  "update_try env i updateFields d =
     (case db_throws env of
        Some x \<Rightarrow> (Inl x, d)
      | None \<Rightarrow>
          (case ObjectId i of
             Inl x \<Rightarrow> (Inl x, d)
           | Inr oid \<Rightarrow>
               (case op_throws env of
                  Some x \<Rightarrow> (Inl x, d)
                | None \<Rightarrow>
                    (let (c, result) =
                           findOneAndUpdate (contact_form_submissions d) oid updateFields
                     in (Inr (fromDocument result), d\<lparr> contact_form_submissions := c \<rparr>)))))"

definition update ::
  "store_env \<Rightarrow> string \<Rightarrow> update_fields \<Rightarrow> database \<Rightarrow>
     (err + ContactFormSubmission option) \<times> database" where
  "update env i updateFields d = catch_return None (update_try env i updateFields d)"

text \<open>\<^verbatim>\<open>ContactFormSubmission.delete\<close>.\<close>

definition delete_try :: "store_env \<Rightarrow> string \<Rightarrow> database \<Rightarrow> (err + bool) \<times> database" where
  "delete_try env i d =
     (case db_throws env of
        Some x \<Rightarrow> (Inl x, d)
      | None \<Rightarrow>
          (case ObjectId i of
             Inl x \<Rightarrow> (Inl x, d)
           | Inr oid \<Rightarrow>
               (case op_throws env of
                  Some x \<Rightarrow> (Inl x, d)
                | None \<Rightarrow>
                    (let (c, deletedCount) = deleteOne (contact_form_submissions d) oid
                     in (Inr (deletedCount = 1), d\<lparr> contact_form_submissions := c \<rparr>)))))"

definition delete :: "store_env \<Rightarrow> string \<Rightarrow> database \<Rightarrow> (err + bool) \<times> database" where
  "delete env i d = catch_return False (delete_try env i d)"

text \<open>A call of a static method in which something throws.\<close>

definition throws_in_try :: "store_env \<Rightarrow> bool" where
  "throws_in_try env \<longleftrightarrow> db_throws env \<noteq> None \<or> op_throws env \<noteq> None"

text \<open>Concrete inputs for the static methods.\<close>

definition store_ok :: store_env where
  "store_ok =
     \<lparr> db_throws = None, op_throws = None, acknowledged = True,
       insertedId = ''65f0c0ffee000000000000aa'', clock_ms = 1700000000999 \<rparr>"

definition store_down :: store_env where
  "store_down = store_ok\<lparr> op_throws := Some network_error \<rparr>"

definition one_submission :: database where
  "one_submission =
     \<lparr> mock_data_execution = [],
       contact_form_submissions =
         [(''65f0c0ffee00000000000001'',
           \<lparr> name = ''Asha'', email = ''asha@example.com'', subject = ''Hello'',
             message = ''A question'', submission_timestamp = 1699990000 \<rparr>)] \<rparr>"

definition backdate :: update_fields where
  "backdate =
     \<lparr> set_name = None, set_email = None, set_subject = None, set_message = None,
       set_submission_timestamp = Some 0 \<rparr>"

definition rename :: update_fields where
  "rename =
     \<lparr> set_name = Some ''Asha R'', set_email = None, set_subject = None, set_message = None,
       set_submission_timestamp = None \<rparr>"

text \<open>The identifiers of the stored submissions, each with its stored timestamp.\<close>

definition stored_timestamps :: "database \<Rightarrow> (objid \<times> int) list" where
  "stored_timestamps d =
     map (\<lambda>p. (fst p, submission_timestamp (snd p))) (contact_form_submissions d)"

section \<open>Concurrent invocations\<close>

text \<open>
  An invocation of the routine runs from one \<^verbatim>\<open>await\<close> to the next; between two of
  them nothing else runs in its process, and the datastore performs each call as one
  step. The places at which an invocation can stand: before its first statement, at
  each awaited call, and returned (with the value returned or the error thrown).
  \<^verbatim>\<open>withTransaction\<close> is one step: the runs of the callback that are aborted leave
  nothing in the database, the answers the callback gets do not depend on the
  database, and the writes of the run that commits become visible together.
\<close>

datatype pc =
    Start
  | Await_getDb
  | Await_updateOne_lock
  | Await_getClient
  | Await_startSession
  | Await_withTransaction
  | Await_updateOne_failed err
  | Returned "err + unit"

text \<open>The outer \<^verbatim>\<open>catch\<close>: where an error thrown inside the outer \<^verbatim>\<open>try\<close> ends.\<close>

definition outer_catch :: "err \<Rightarrow> pc" where
  "outer_catch error = Returned (if code error = NumCode 11000 then Inr () else Inl error)"

text \<open>
  One step of an invocation: the code from the place it stands at to the next
  awaited call, on the flag of its process, the database and its own call log.
\<close>

fun inv_step :: "env \<Rightarrow> pc \<Rightarrow> state \<Rightarrow> pc \<times> state" where
  "inv_step env Start s =
     (if populationAttempted s then (Returned (Inr ()), s)
      else (Await_getDb, s\<lparr> populationAttempted := True \<rparr>))"
| "inv_step env Await_getDb s =
     (let s1 = log_call Call_getDb s
      in case getDb_throws env of
           Some e \<Rightarrow> (Returned (Inl e), s1)
         | None \<Rightarrow> (Await_updateOne_lock, s1))"
| "inv_step env Await_updateOne_lock s =
     (let s1 = log_call (Call_updateOne (lock_update env) True False) s
      in case updateOne_lock_throws env of
           Some e \<Rightarrow> (outer_catch e, s1)
         | None \<Rightarrow>
             (let result = snd (updateOne (mock_data_execution (db s1)) seed_id
                                  (lock_update env) True);
                  s2 = write_op False (Write_updateOne seed_id (lock_update env) True) s1
              in if upsertedCount result = 0 then (Returned (Inr ()), s2)
                 else (Await_getClient, s2)))"
| "inv_step env Await_getClient s =
     (let s1 = log_call Call_getClient s
      in case getClient_throws env of
           Some e \<Rightarrow> (outer_catch e, s1)
         | None \<Rightarrow> (Await_startSession, s1))"
| "inv_step env Await_startSession s =
     (let s1 = log_call Call_startSession s
      in case startSession_throws env of
           Some e \<Rightarrow> (outer_catch e, s1)
         | None \<Rightarrow> (Await_withTransaction, s1))"
| "inv_step env Await_withTransaction s =
     (case withTransaction transaction_callback (first_attempt env) (later_attempts env)
             (log_call Call_withTransaction s) of
        (Inr u, s1) \<Rightarrow> (Returned (Inr ()), log_call Call_endSession s1)
      | (Inl error, s1) \<Rightarrow> (Await_updateOne_failed error, s1))"
| "inv_step env (Await_updateOne_failed error) s =
     (let s2 = log_call (Call_updateOne (failed_update env error) False False) s;
          s3 = (case updateOne_failed_throws env of
                  Some updateError \<Rightarrow> s2
                | None \<Rightarrow>
                    write_op False
                      (Write_updateOne seed_id (failed_update env error) False) s2)
      in (outer_catch error, log_call Call_endSession s3))"
| "inv_step env (Returned r) s = (Returned r, s)"

text \<open>An invocation run alone, for a number of steps.\<close>

fun inv_run :: "nat \<Rightarrow> env \<Rightarrow> pc \<times> state \<Rightarrow> pc \<times> state" where
  "inv_run 0 env x = x"
| "inv_run (Suc n) env x = inv_run n env (inv_step env (fst x) (snd x))"

text \<open>
  Invocations that run concurrently: each belongs to a process (\<open>pid\<close>) whose flag it
  shares with the other invocations of that process, has its own surroundings and
  call log, and stands at some place. All share the database.
\<close>

record invocation =
  pid :: nat
  inv_env :: env
  inv_pc :: pc
  inv_calls :: "call list"

record system =
  flags :: "nat \<Rightarrow> bool"
  shared_db :: database
  invocations :: "invocation list"

text \<open>
  What invocation \<open>p\<close> sees of the system. Between two steps no transaction of its
  session is open.
\<close>

definition view :: "system \<Rightarrow> invocation \<Rightarrow> state" where
  "view \<sigma> p =
     \<lparr> populationAttempted = flags \<sigma> (pid p), db = shared_db \<sigma>, pending = [],
       calls = inv_calls p \<rparr>"

text \<open>
  The next step of invocation \<open>p\<close> in the system: the place it reaches with what it
  then sees, and the invocation as it then is.
\<close>

definition after_step :: "system \<Rightarrow> invocation \<Rightarrow> pc \<times> state" where
  "after_step \<sigma> p = inv_step (inv_env p) (inv_pc p) (view \<sigma> p)"

definition stepped :: "system \<Rightarrow> invocation \<Rightarrow> invocation" where
  "stepped \<sigma> p =
     p\<lparr> inv_pc := fst (after_step \<sigma> p), inv_calls := calls (snd (after_step \<sigma> p)) \<rparr>"

text \<open>
  The system after invocation number \<open>k\<close> has made its next step: the flag of its
  process and the database are as the step left them.
\<close>

definition sys_step :: "nat \<Rightarrow> system \<Rightarrow> system" where
  "sys_step k \<sigma> =
     (if k < length (invocations \<sigma>)
      then
        (let p = invocations \<sigma> ! k
         in \<lparr> flags = (flags \<sigma>)(pid p := populationAttempted (snd (after_step \<sigma> p))),
              shared_db = db (snd (after_step \<sigma> p)),
              invocations = (invocations \<sigma>)[k := stepped \<sigma> p] \<rparr>)
      else \<sigma>)"

text \<open>A schedule names the invocation that steps next, step after step.\<close>

fun run :: "nat list \<Rightarrow> system \<Rightarrow> system" where
  "run [] \<sigma> = \<sigma>"
| "run (k # ks) \<sigma> = run ks (sys_step k \<sigma>)"

text \<open>
  The start: an unused datastore, no process has tried, and one invocation for each
  given pair of a process and its surroundings, none of them begun.
\<close>

definition init :: "(nat \<times> env) list \<Rightarrow> system" where
  "init ps =
     \<lparr> flags = (\<lambda>q. False),
       shared_db = fresh_database,
       invocations =
         map (\<lambda>(q, env). \<lparr> pid = q, inv_env = env, inv_pc = Start, inv_calls = [] \<rparr>) ps \<rparr>"

fun returned :: "pc \<Rightarrow> bool" where
  "returned (Returned r) = True"
| "returned c = False"

definition all_returned :: "system \<Rightarrow> bool" where
  "all_returned \<sigma> \<longleftrightarrow> list_all (\<lambda>p. returned (inv_pc p)) (invocations \<sigma>)"

text \<open>
  The calls that lead to the transaction return and \<^verbatim>\<open>withTransaction\<close> returns (the
  run of the callback that the driver makes last commits).
\<close>

definition calls_return :: "env \<Rightarrow> bool" where
  "calls_return env \<longleftrightarrow> reaches_transaction env \<and> transaction_error env = None"

text \<open>The invocations that have made the batch insert.\<close>

definition inserters :: "system \<Rightarrow> invocation list" where
  "inserters \<sigma> = filter (\<lambda>p. 0 < batch_inserts (inv_calls p)) (invocations \<sigma>)"

text \<open>The submissions collection holding exactly the batch of one run of the callback.\<close>

definition one_batch :: "attempt \<Rightarrow> submission_doc collection" where
  "one_batch a = insertMany [] (new_id a) (mockSubmissions (now_batch a))"

text \<open>The batch an invocation commits: that of the run of its callback that commits.\<close>

definition batch_of :: "invocation \<Rightarrow> submission_doc collection" where
  "batch_of p = (case committed_attempt (inv_env p) of Some a \<Rightarrow> one_batch a | None \<Rightarrow> [])"

text \<open>
  Where an invocation is on its way, read from the place it stands at and its call
  log: it has passed the flag check; it has inserted the flag record; it has made
  the batch insert; its transaction has committed.
\<close>

definition entered :: "invocation \<Rightarrow> bool" where
  "entered p \<longleftrightarrow> inv_pc p = Await_getDb \<or> inv_calls p \<noteq> []"

definition acquired :: "invocation \<Rightarrow> bool" where
  "acquired p \<longleftrightarrow> inv_pc p = Await_getClient \<or> Call_getClient \<in> set (inv_calls p)"

definition inserted :: "invocation \<Rightarrow> bool" where
  "inserted p \<longleftrightarrow> 0 < batch_inserts (inv_calls p)"

definition committed_by :: "invocation \<Rightarrow> bool" where
  "committed_by p \<longleftrightarrow> inserted p \<and> transaction_error (inv_env p) = None"

definition lock_call :: "invocation \<Rightarrow> call" where
  "lock_call p = Call_updateOne (lock_update (inv_env p)) True False"

definition present :: "database \<Rightarrow> bool" where
  "present d \<longleftrightarrow> map_of (mock_data_execution d) seed_id \<noteq> None"

text \<open>What holds of one invocation at each place, given the flag of its process.\<close>

definition local_inv :: "bool \<Rightarrow> invocation \<Rightarrow> bool" where
  "local_inv flag p =
     (case inv_pc p of
        Start \<Rightarrow> inv_calls p = []
      | Await_getDb \<Rightarrow> inv_calls p = []
      | Await_updateOne_lock \<Rightarrow> inv_calls p = [Call_getDb]
      | Await_getClient \<Rightarrow> inv_calls p = [Call_getDb, lock_call p]
      | Await_startSession \<Rightarrow> inv_calls p = [Call_getDb, lock_call p, Call_getClient]
      | Await_withTransaction \<Rightarrow>
          inv_calls p = [Call_getDb, lock_call p, Call_getClient, Call_startSession]
      | Await_updateOne_failed e \<Rightarrow>
          Call_getClient \<in> set (inv_calls p) \<and> 0 < batch_inserts (inv_calls p) \<and>
          transaction_error (inv_env p) = Some e
      | Returned r \<Rightarrow>
          (inv_calls p = [] \<and> flag) \<or>
          (inv_calls p \<noteq> [] \<and> Call_getClient \<notin> set (inv_calls p) \<and>
           batch_inserts (inv_calls p) = 0 \<and>
           (calls_return (inv_env p) \<longrightarrow> lock_call p \<in> set (inv_calls p))) \<or>
          (Call_getClient \<in> set (inv_calls p) \<and>
           (calls_return (inv_env p) \<longrightarrow> 0 < batch_inserts (inv_calls p))))"

text \<open>What holds of the system in every state it reaches from the start.\<close>

definition sys_inv :: "system \<Rightarrow> bool" where
  "sys_inv \<sigma> \<longleftrightarrow>
     (let ps = invocations \<sigma>; n = length ps in
      (\<forall>i<n. local_inv (flags \<sigma> (pid (ps ! i))) (ps ! i)) \<and>
      (present (shared_db \<sigma>) \<longleftrightarrow> (\<exists>i<n. acquired (ps ! i))) \<and>
      (\<forall>i<n. \<forall>j<n. acquired (ps ! i) \<longrightarrow> acquired (ps ! j) \<longrightarrow> i = j) \<and>
      ((\<forall>i<n. \<not> committed_by (ps ! i)) \<longrightarrow> contact_form_submissions (shared_db \<sigma>) = []) \<and>
      (\<forall>i<n. committed_by (ps ! i) \<longrightarrow>
         contact_form_submissions (shared_db \<sigma>) = batch_of (ps ! i)) \<and>
      (\<forall>i<n. flags \<sigma> (pid (ps ! i)) \<longrightarrow> (\<exists>j<n. pid (ps ! j) = pid (ps ! i) \<and> entered (ps ! j))) \<and>
      (\<forall>i<n. lock_call (ps ! i) \<in> set (inv_calls (ps ! i)) \<longrightarrow>
         updateOne_lock_throws (inv_env (ps ! i)) = None \<longrightarrow> present (shared_db \<sigma>)))"

text \<open>An upper bound on the steps an invocation has left before it has returned.\<close>

fun steps_left :: "pc \<Rightarrow> nat" where
  "steps_left Start = 7"
| "steps_left Await_getDb = 6"
| "steps_left Await_updateOne_lock = 5"
| "steps_left Await_getClient = 4"
| "steps_left Await_startSession = 3"
| "steps_left Await_withTransaction = 2"
| "steps_left (Await_updateOne_failed e) = 1"
| "steps_left (Returned r) = 0"

text \<open>The schedule in which every one of \<open>n\<close> invocations steps in turn, \<open>m\<close> times over.\<close>

definition rounds :: "nat \<Rightarrow> nat \<Rightarrow> nat list" where
  "rounds m n = concat (replicate m [0..<n])"

text \<open>
  Concrete inputs: two invocations in one process and one in another, every call
  returning but the completion update in the first run of the callback of the first
  invocation; and a single invocation that cannot reach the datastore for the
  conditional insert.
\<close>

definition three_invocations :: "(nat \<times> env) list" where
  "three_invocations = [(0, env_completion_fails_once), (0, env_ok), (1, env_ok)]"

definition one_invocation_outage :: "(nat \<times> env) list" where
  "one_invocation_outage = [(0, env_lock_outage)]"

section \<open>Properties of the batch\<close>

lemma length_mockSubmissions: "length (mockSubmissions now) = 10"
  by (simp add: mockSubmissions_def)

lemma mockSubmissions_fields: "list_all required_fields_nonempty (mockSubmissions now)"
  by (simp add: mockSubmissions_def required_fields_nonempty_def)

lemma timestamps_explicit:
  "map submission_timestamp (mockSubmissions now) =
    [now 0 div 1000 - 604800, now 1 div 1000 - 432000, now 2 div 1000 - 259200,
     now 3 div 1000 - 172800, now 4 div 1000 - 86400, now 5 div 1000 - 43200,
     now 6 div 1000 - 21600, now 7 div 1000 - 7200, now 8 div 1000 - 3600,
     now 9 div 1000 - 1800]"
  by (simp add: mockSubmissions_def)

lemma upt_10: "[0..<10] = [0, 1, 2, 3, 4, 5, 6, 7, 8, 9::nat]"
  by (simp add: upt_rec)

lemma mockSubmissions_timestamps:
  "map submission_timestamp (mockSubmissions now) =
     map (\<lambda>i. now i div 1000 - offsets ! i) [0..<10]"
  unfolding timestamps_explicit by (simp add: offsets_def upt_10)

lemma offsets_decreasing: "sorted_wrt (\<lambda>a b. a > b) offsets"
  by (simp add: offsets_def)

lemma clock_monotone_steps:
  assumes "clock_monotone now"
  shows "now 0 div 1000 \<le> now 1 div 1000" "now 1 div 1000 \<le> now 2 div 1000"
    "now 2 div 1000 \<le> now 3 div 1000" "now 3 div 1000 \<le> now 4 div 1000"
    "now 4 div 1000 \<le> now 5 div 1000" "now 5 div 1000 \<le> now 6 div 1000"
    "now 6 div 1000 \<le> now 7 div 1000" "now 7 div 1000 \<le> now 8 div 1000"
    "now 8 div 1000 \<le> now 9 div 1000"
proof -
  from assms have m: "now 0 \<le> now 1" "now 1 \<le> now 2" "now 2 \<le> now 3" "now 3 \<le> now 4"
    "now 4 \<le> now 5" "now 5 \<le> now 6" "now 6 \<le> now 7" "now 7 \<le> now 8" "now 8 \<le> now 9"
    by (simp_all add: clock_monotone_def upt_10)
  have d: "a \<le> b \<Longrightarrow> a div 1000 \<le> b div 1000" for a b :: int
    by (rule zdiv_mono1) simp_all
  show "now 0 div 1000 \<le> now 1 div 1000" "now 1 div 1000 \<le> now 2 div 1000"
    "now 2 div 1000 \<le> now 3 div 1000" "now 3 div 1000 \<le> now 4 div 1000"
    "now 4 div 1000 \<le> now 5 div 1000" "now 5 div 1000 \<le> now 6 div 1000"
    "now 6 div 1000 \<le> now 7 div 1000" "now 7 div 1000 \<le> now 8 div 1000"
    "now 8 div 1000 \<le> now 9 div 1000"
    by (rule d, rule m)+
qed

lemma increasing_chain:
  fixes t :: "nat \<Rightarrow> int"
  assumes "t 0 \<le> t 1" "t 1 \<le> t 2" "t 2 \<le> t 3" "t 3 \<le> t 4" "t 4 \<le> t 5"
    "t 5 \<le> t 6" "t 6 \<le> t 7" "t 7 \<le> t 8" "t 8 \<le> t 9"
  shows "sorted_wrt (\<lambda>a b. a < b)
    [t 0 - 604800, t 1 - 432000, t 2 - 259200, t 3 - 172800, t 4 - 86400, t 5 - 43200,
     t 6 - 21600, t 7 - 7200, t 8 - 3600, t 9 - 1800]"
proof -
  have step: "sorted_wrt (\<lambda>a b. a < b) (x # y # ys)"
    if "x < y" "sorted_wrt (\<lambda>a b. a < b) (y # ys)" for x y :: int and ys
    using that by (auto simp: less_trans)
  show ?thesis
    using assms by (intro step) simp_all
qed

lemma mockSubmissions_increasing:
  assumes "clock_monotone now"
  shows "sorted_wrt (\<lambda>a b. a < b) (map submission_timestamp (mockSubmissions now))"
  unfolding timestamps_explicit
  using clock_monotone_steps[OF assms]
  by (rule increasing_chain[of "\<lambda>i. now i div 1000"])

lemma sorted_wrt_less_last:
  fixes xs :: "int list"
  assumes "sorted_wrt (\<lambda>a b. a < b) xs" "x \<in> set xs"
  shows "x \<le> last xs"
  using assms
proof (induction xs)
  case Nil
  then show ?case by simp
next
  case (Cons a xs)
  then show ?case by (cases xs) (auto simp: less_imp_le)
qed

lemma mockSubmissions_last_latest:
  assumes "clock_monotone now"
  shows "list_all (\<lambda>d. submission_timestamp d \<le> submission_timestamp (last (mockSubmissions now)))
           (mockSubmissions now)"
proof -
  let ?xs = "mockSubmissions now"
  have ne: "?xs \<noteq> []"
    using length_mockSubmissions[of now] by auto
  have "submission_timestamp d \<le> submission_timestamp (last ?xs)" if "d \<in> set ?xs" for d
  proof -
    from that have "submission_timestamp d \<in> set (map submission_timestamp ?xs)"
      by simp
    then have "submission_timestamp d \<le> last (map submission_timestamp ?xs)"
      by (rule sorted_wrt_less_last[OF mockSubmissions_increasing[OF assms]])
    then show ?thesis
      by (simp add: last_map[OF ne])
  qed
  then show ?thesis
    by (simp add: list_all_iff)
qed

text \<open>
  Claim C7. The batch built by \<^verbatim>\<open>insertMockData\<close> has a fixed size (ten items,
  whatever the clock reads); every item has its four string fields non-empty; the
  timestamp of the item at index \<open>i\<close> is the clock reading in seconds minus the
  \<open>i\<close>-th fixed offset; the offsets strictly decrease in list order; and, the clock
  not running backwards while the list is built, the timestamps strictly increase in
  list order, so that the last item is the most recent one.
\<close>

theorem C7_batch_shape:
  "length (mockSubmissions now) = 10
   \<and> list_all required_fields_nonempty (mockSubmissions now)
   \<and> map submission_timestamp (mockSubmissions now) =
       map (\<lambda>i. now i div 1000 - offsets ! i) [0..<10]
   \<and> sorted_wrt (\<lambda>a b. a > b) offsets
   \<and> (clock_monotone now \<longrightarrow>
        sorted_wrt (\<lambda>a b. a < b) (map submission_timestamp (mockSubmissions now))
        \<and> list_all (\<lambda>d. submission_timestamp d \<le> submission_timestamp (last (mockSubmissions now)))
             (mockSubmissions now))"
  using length_mockSubmissions mockSubmissions_fields mockSubmissions_timestamps
    offsets_decreasing mockSubmissions_increasing mockSubmissions_last_latest
  by blast

theorem C7_batch_shape_witness:
  "clock_monotone (\<lambda>i. 1700000000000 + int i)
   \<and> sorted_wrt (\<lambda>a b. a < b)
        (map submission_timestamp (mockSubmissions (\<lambda>i. 1700000000000 + int i)))"
proof -
  have h: "clock_monotone (\<lambda>i. 1700000000000 + int i)"
    by (simp add: clock_monotone_def upt_10)
  with C7_batch_shape [of "\<lambda>i. 1700000000000 + int i"] show ?thesis
    by blast
qed

section \<open>Properties of the datastore operations\<close>

lemma write_fields_Nil [simp]: "write_fields [] d = d"
  by (simp add: write_fields_def)

lemma updateOne_present:
  assumes "map_of c i = Some d"
  shows "updateOne c i u upsert =
           (AList.update i (write_fields (dollar_set u) d) c,
            \<lparr> matchedCount = 1, upsertedCount = 0 \<rparr>)"
  using assms by (simp add: updateOne_def)

lemma updateOne_absent_upsert:
  assumes "map_of c i = None"
  shows "updateOne c i u True =
           (c @ [(i, write_fields (dollar_setOnInsert u) (write_fields (dollar_set u) []))],
            \<lparr> matchedCount = 0, upsertedCount = 1 \<rparr>)"
  using assms by (simp add: updateOne_def)

lemma updateOne_setOnInsert_only:
  assumes "map_of c i = Some d" and "dollar_set u = []"
  shows "updateOne c i u upsert = (c, \<lparr> matchedCount = 1, upsertedCount = 0 \<rparr>)"
  using assms by (simp add: updateOne_present update_triv)

lemma map_of_update_same: "map_of (AList.update k v al) k = Some v"
  by (simp add: update_conv')

lemma map_of_append_new:
  assumes "map_of c i = None"
  shows "map_of (c @ [(i, d)]) i = Some d"
  using assms by (simp add: map_add_def)

section \<open>Properties of the seeding routine\<close>

lemma log_call_simps [simp]:
  "populationAttempted (log_call c s) = populationAttempted s"
  "db (log_call c s) = db s"
  "pending (log_call c s) = pending s"
  "calls (log_call c s) = calls s @ [c]"
  by (simp_all add: log_call_def)

lemma write_op_simps [simp]:
  "populationAttempted (write_op session w s) = populationAttempted s"
  "calls (write_op session w s) = calls s"
  "db (write_op True w s) = db s"
  "pending (write_op True w s) = pending s @ [w]"
  "db (write_op False w s) = apply_write w (db s)"
  "pending (write_op False w s) = pending s"
  by (simp_all add: write_op_def)

lemma set_mock_data_execution_simps [simp]:
  "populationAttempted (set_mock_data_execution c s) = populationAttempted s"
  "mock_data_execution (db (set_mock_data_execution c s)) = c"
  "contact_form_submissions (db (set_mock_data_execution c s)) = contact_form_submissions (db s)"
  "pending (set_mock_data_execution c s) = pending s"
  "calls (set_mock_data_execution c s) = calls s"
  by (simp_all add: set_mock_data_execution_def)

lemma batch_inserts_simps [simp]:
  "batch_inserts [] = 0"
  "batch_inserts (cs @ ds) = batch_inserts cs + batch_inserts ds"
  "batch_inserts (c # cs) = (if is_batch_insert c then 1 else 0) + batch_inserts cs"
  by (simp_all add: batch_inserts_def)

lemma state_eqI:
  fixes s t :: state
  assumes "populationAttempted s = populationAttempted t" and "db s = db t"
    and "pending s = pending t" and "calls s = calls t"
  shows "s = t"
  using assms by simp

lemma database_eqI:
  fixes a b :: database
  assumes "mock_data_execution a = mock_data_execution b"
    and "contact_form_submissions a = contact_form_submissions b"
  shows "a = b"
  using assms by simp

text \<open>
  One run of the callback in closed form: it makes the calls of the run and adds its
  writes to the transaction; the database is not touched.
\<close>

lemma insertMockData_eq:
  "insertMockData a s =
     ((case insertMany_throws a of Some e \<Rightarrow> Inl e | None \<Rightarrow> Inr ()),
      s\<lparr> pending := pending s @
           [Write_insertMany (identified (new_id a)
              (case insertMany_throws a of
                 Some e \<Rightarrow> take (insertMany_written a) (mockSubmissions (now_batch a))
               | None \<Rightarrow> mockSubmissions (now_batch a)))],
         calls := calls s @ [Call_insertMany (mockSubmissions (now_batch a)) True] \<rparr>)"
  by (simp add: insertMockData_def Let_def write_op_def log_call_def split: option.splits)

lemma transaction_callback_eq:
  "transaction_callback a s =
     ((case insertMany_throws a of
         Some e \<Rightarrow> Inl e
       | None \<Rightarrow> (case updateOne_completed_throws a of Some e \<Rightarrow> Inl e | None \<Rightarrow> Inr ())),
      s\<lparr> pending := pending s @ callback_writes a,
         calls := calls s @ attempt_calls a \<rparr>)"
  by (simp add: transaction_callback_def insertMockData_eq Let_def write_op_def log_call_def
        callback_writes_def attempt_calls_def split: option.splits)

text \<open>The callback itself leaves the database as it is: both of its writes carry the session.\<close>

lemma transaction_callback_db: "db (snd (transaction_callback a s)) = db s"
  by (simp add: transaction_callback_eq)

lemma transaction_callback_flag: "populationAttempted (snd (transaction_callback a s)) = populationAttempted s"
  by (simp add: transaction_callback_eq)

text \<open>The transaction: its result, its writes and its calls.\<close>

text \<open>
  What aborting undoes: a write made with the session option is dropped, a write made
  without it stays.
\<close>

lemma abort_drops_session_write: "db (abortTransaction (write_op True w s)) = db s"
  by (simp add: abortTransaction_def)

lemma abort_keeps_plain_write:
  "db (abortTransaction (write_op False w s)) = apply_write w (db s)"
  by (simp add: abortTransaction_def)

lemma commit_writes:
  assumes "insertMany_throws a = None" and "updateOne_completed_throws a = None"
  shows "fold apply_write (callback_writes a) d = committed a d"
  using assms
  by (simp add: callback_writes_def committed_def insertMany_def identified_def)

lemma attempt_error_None:
  "attempt_error a = None \<longleftrightarrow>
     insertMany_throws a = None \<and> updateOne_completed_throws a = None \<and> commit_throws a = None"
  by (simp add: attempt_error_def split: option.splits)

text \<open>
  One run of the callback with its transaction: a run that fails leaves the database as
  it was, a run that succeeds commits the batch and the completion update together.
\<close>

lemma run_attempt_eq:
  "run_attempt transaction_callback a s =
     (case attempt_error a of
        Some e \<Rightarrow> (Inl e, s\<lparr> pending := [], calls := calls s @ attempt_calls a \<rparr>)
      | None \<Rightarrow>
          (Inr (), s\<lparr> db := committed a (db s), pending := [],
                      calls := calls s @ attempt_calls a \<rparr>))"
proof (cases "attempt_error a")
  case None
  then have "insertMany_throws a = None" "updateOne_completed_throws a = None"
    "commit_throws a = None"
    by (simp_all add: attempt_error_None)
  then show ?thesis
    using None
    by (simp add: run_attempt_def transaction_callback_eq startTransaction_def
          commitTransaction_def commit_writes)
next
  case (Some e)
  then show ?thesis
    by (simp add: run_attempt_def transaction_callback_eq startTransaction_def
          abortTransaction_def attempt_error_def split: option.splits)
qed

text \<open>
  \<^verbatim>\<open>withTransaction\<close> with the runs the driver makes: the calls of every run are made,
  and the database is as the last run leaves it.
\<close>

lemma withTransaction_eq:
  "withTransaction transaction_callback a later s =
     (case outcome a later of
        Inl e \<Rightarrow> (Inl e, s\<lparr> pending := [], calls := calls s @ transaction_calls a later \<rparr>)
      | Inr a' \<Rightarrow>
          (Inr (), s\<lparr> db := committed a' (db s), pending := [],
                      calls := calls s @ transaction_calls a later \<rparr>))"
proof (induction later arbitrary: a s)
  case Nil
  show ?case
    by (simp add: run_attempt_eq split: option.splits)
next
  case (Cons a1 later)
  show ?case
  proof (cases "attempt_error a")
    case None
    then show ?thesis
      by (simp add: run_attempt_eq)
  next
    case (Some e)
    show ?thesis
    proof (cases "transient e")
      case False
      with Some show ?thesis
        by (simp add: run_attempt_eq)
    next
      case True
      with Some show ?thesis
        by (simp add: run_attempt_eq Cons.IH split: sum.splits)
    qed
  qed
qed

lemma withTransaction_result:
  "fst (withTransaction transaction_callback (first_attempt env) (later_attempts env) s) =
     (case transaction_error env of Some e \<Rightarrow> Inl e | None \<Rightarrow> Inr ())"
  by (simp add: withTransaction_eq transaction_error_def split: sum.splits)

lemma withTransaction_calls:
  "calls (snd (withTransaction transaction_callback a later s)) =
     calls s @ transaction_calls a later"
  by (simp add: withTransaction_eq split: sum.splits)

lemma withTransaction_flag:
  "populationAttempted (snd (withTransaction transaction_callback a later s)) =
     populationAttempted s"
  by (simp add: withTransaction_eq split: sum.splits)

lemma withTransaction_pending:
  "pending (snd (withTransaction transaction_callback a later s)) = []"
  by (simp add: withTransaction_eq split: sum.splits)

text \<open>A transaction that fails leaves the database as it was; one that succeeds commits.\<close>

lemma withTransaction_db:
  "db (snd (withTransaction transaction_callback a later s)) =
     (case outcome a later of Inl e \<Rightarrow> db s | Inr a' \<Rightarrow> committed a' (db s))"
  by (simp add: withTransaction_eq split: sum.splits)

text \<open>How many batch inserts the runs of the callback make: one for each run.\<close>

lemma attempt_calls_batch_inserts [simp]: "batch_inserts (attempt_calls a) = 1"
  by (simp add: attempt_calls_def)

lemma transaction_calls_positive: "0 < batch_inserts (transaction_calls a later)"
  by (cases later) simp_all

lemma transaction_calls_bound:
  "batch_inserts (transaction_calls a later) \<le> Suc (length later)"
proof (induction later arbitrary: a)
  case Nil
  show ?case by simp
next
  case (Cons a1 later)
  from Cons.IH[of a1] show ?case
    by (simp split: option.splits)
qed

lemma transaction_calls_single [simp]: "batch_inserts (transaction_calls a []) = 1"
  by simp

lemma transaction_calls_no_getClient [simp]:
  "Call_getClient \<notin> set (transaction_calls a later)"
  by (induction later arbitrary: a) (simp_all add: attempt_calls_def split: option.splits)

lemma outcome_Inr_error:
  assumes "outcome a later = Inr a'"
  shows "attempt_error a' = None" and "a' \<in> set (a # later)"
  using assms
  by (induction later arbitrary: a) (auto split: option.splits if_splits)

lemma transaction_error_outcome:
  "transaction_error env = Some e \<longleftrightarrow>
     outcome (first_attempt env) (later_attempts env) = Inl e"
  "transaction_error env = None \<longleftrightarrow>
     (\<exists>a. outcome (first_attempt env) (later_attempts env) = Inr a)"
  "committed_attempt env = Some a \<longleftrightarrow>
     outcome (first_attempt env) (later_attempts env) = Inr a"
  "committed_attempt env = None \<longleftrightarrow> transaction_error env \<noteq> None"
  by (simp_all add: transaction_error_def committed_attempt_def split: sum.splits)

lemma run_transaction_result:
  "fst (run_transaction env s) =
     (case transaction_error env of Some e \<Rightarrow> Inl e | None \<Rightarrow> Inr ())"
  by (simp add: run_transaction_def withTransaction_eq transaction_error_def Let_def
        split: sum.splits)

lemma run_transaction_db:
  "db (snd (run_transaction env s)) =
     (case outcome (first_attempt env) (later_attempts env) of
        Inr a \<Rightarrow> committed a (db s)
      | Inl e \<Rightarrow>
          (case updateOne_failed_throws env of
             Some updateError \<Rightarrow> db s
           | None \<Rightarrow> marked_failed env e (db s)))"
  by (simp add: run_transaction_def withTransaction_eq Let_def marked_failed_def
        split: sum.splits option.splits)

lemma run_transaction_calls:
  "calls (snd (run_transaction env s)) =
     calls s @ Call_withTransaction #
       transaction_calls (first_attempt env) (later_attempts env) @
       (case transaction_error env of
          Some e \<Rightarrow> [Call_updateOne (failed_update env e) False False]
        | None \<Rightarrow> []) @
       [Call_endSession]"
  by (simp add: run_transaction_def withTransaction_eq transaction_error_def Let_def
        split: sum.splits option.splits)

lemma run_transaction_pending: "pending (snd (run_transaction env s)) = []"
  by (simp add: run_transaction_def withTransaction_eq Let_def
        split: sum.splits option.splits)

lemma run_transaction_flag [simp]:
  "populationAttempted (snd (run_transaction env s)) = populationAttempted s"
  by (simp add: run_transaction_def withTransaction_eq Let_def
        split: sum.splits option.splits)

lemma run_transaction_batch_inserts:
  "batch_inserts (calls (snd (run_transaction env s))) =
     batch_inserts (calls s) +
       batch_inserts (transaction_calls (first_attempt env) (later_attempts env))"
  by (simp add: run_transaction_calls split: option.splits)

lemma try_block_flag [simp]:
  "populationAttempted (snd (try_block env s)) = populationAttempted s"
  by (simp add: try_block_def Let_def split: prod.splits option.splits)

text \<open>The flag, once the routine has run, is set.\<close>

lemma populate_sets_flag:
  "populationAttempted (snd (populate_with_mock_data env s))"
proof (cases "populationAttempted s")
  case True
  then show ?thesis by (simp add: populate_with_mock_data_def)
next
  case False
  let ?s1 = "log_call Call_getDb (s\<lparr> populationAttempted := True \<rparr>)"
  obtain r s2 where t: "try_block env ?s1 = (r, s2)"
    by (cases "try_block env ?s1")
  with try_block_flag[of env ?s1] have "populationAttempted s2"
    by simp
  with False t show ?thesis
    by (simp add: populate_with_mock_data_def Let_def split: sum.splits option.splits)
qed

lemma populate_when_flag_set:
  assumes "populationAttempted s"
  shows "populate_with_mock_data env s = (Inr (), s)"
  using assms by (simp add: populate_with_mock_data_def)

text \<open>The outer \<^verbatim>\<open>try\<close> block when the flag record is already there.\<close>

lemma try_block_present:
  assumes "map_of (mock_data_execution (db s)) seed_id = Some d"
  shows "try_block env s =
           (case updateOne_lock_throws env of Some e \<Rightarrow> Inl e | None \<Rightarrow> Inr (),
            log_call (Call_updateOne (lock_update env) True False) s)"
proof -
  have "updateOne (mock_data_execution (db s)) seed_id (lock_update env) True =
          (mock_data_execution (db s), \<lparr> matchedCount = 1, upsertedCount = 0 \<rparr>)"
    using assms by (rule updateOne_setOnInsert_only) (simp add: lock_update_def)
  then show ?thesis
    by (simp add: try_block_def Let_def write_op_def log_call_def split: option.splits)
qed

text \<open>The outer \<^verbatim>\<open>try\<close> block when the flag record is not there and the calls return.\<close>

lemma try_block_absent:
  assumes "map_of (mock_data_execution (db s)) seed_id = None"
    and "updateOne_lock_throws env = None"
    and "getClient_throws env = None"
    and "startSession_throws env = None"
  shows "try_block env s =
           run_transaction env
             (log_call Call_startSession (log_call Call_getClient
                (set_mock_data_execution
                   (mock_data_execution (db s) @
                      [(seed_id, write_fields (dollar_setOnInsert (lock_update env)) [])])
                   (log_call (Call_updateOne (lock_update env) True False) s))))"
proof -
  have "updateOne (mock_data_execution (db s)) seed_id (lock_update env) True =
          (mock_data_execution (db s) @
             [(seed_id, write_fields (dollar_setOnInsert (lock_update env))
                 (write_fields (dollar_set (lock_update env)) []))],
           \<lparr> matchedCount = 0, upsertedCount = 1 \<rparr>)"
    using assms(1) by (rule updateOne_absent_upsert)
  moreover have "dollar_set (lock_update env) = []"
    by (simp add: lock_update_def)
  ultimately show ?thesis
    using assms(2-4)
    by (simp add: try_block_def Let_def write_op_def set_mock_data_execution_def log_call_def)
qed

text \<open>The routine makes one batch insert for each run of the callback, and none otherwise.\<close>

lemma try_block_batch_inserts:
  "batch_inserts (calls (snd (try_block env s))) = batch_inserts (calls s) \<or>
   batch_inserts (calls (snd (try_block env s))) =
     batch_inserts (calls s) +
       batch_inserts (transaction_calls (first_attempt env) (later_attempts env))"
  by (simp add: try_block_def Let_def run_transaction_batch_inserts split: option.splits)

lemma populate_batch_inserts:
  "batch_inserts (calls (snd (populate_with_mock_data env s))) = batch_inserts (calls s) \<or>
   batch_inserts (calls (snd (populate_with_mock_data env s))) =
     batch_inserts (calls s) +
       batch_inserts (transaction_calls (first_attempt env) (later_attempts env))"
proof -
  let ?s1 = "log_call Call_getDb (s\<lparr> populationAttempted := True \<rparr>)"
  obtain r s2 where t: "try_block env ?s1 = (r, s2)"
    by (cases "try_block env ?s1")
  with try_block_batch_inserts[of env ?s1] t show ?thesis
    by (auto simp add: populate_with_mock_data_def Let_def split: sum.splits option.splits)
qed

lemma populate_batch_inserts_bound:
  "batch_inserts (calls (snd (populate_with_mock_data env s))) \<le>
     batch_inserts (calls s) + Suc (length (later_attempts env))"
  using populate_batch_inserts[of env s]
    transaction_calls_bound[of "first_attempt env" "later_attempts env"]
  by auto

text \<open>The routine adds nothing to the submissions, or the batch of the run that committed.\<close>

lemma try_block_submissions:
  "contact_form_submissions (db (snd (try_block env s))) = contact_form_submissions (db s) \<or>
   (\<exists>a. committed_attempt env = Some a \<and>
      contact_form_submissions (db (snd (try_block env s))) =
        contact_form_submissions (db s) @ one_batch a)"
proof (cases "outcome (first_attempt env) (later_attempts env)")
  case (Inl e)
  then show ?thesis
    by (simp add: try_block_def Let_def run_transaction_db marked_failed_def
          split: option.splits)
next
  case (Inr a)
  then have "committed_attempt env = Some a"
    by (simp add: transaction_error_outcome)
  with Inr show ?thesis
    by (simp add: try_block_def Let_def run_transaction_db committed_def one_batch_def
          insertMany_def split: option.splits)
qed

lemma populate_submissions:
  "contact_form_submissions (db (snd (populate_with_mock_data env s))) =
     contact_form_submissions (db s) \<or>
   (\<exists>a. committed_attempt env = Some a \<and>
      contact_form_submissions (db (snd (populate_with_mock_data env s))) =
        contact_form_submissions (db s) @ one_batch a)"
proof -
  let ?s1 = "log_call Call_getDb (s\<lparr> populationAttempted := True \<rparr>)"
  obtain r s2 where t: "try_block env ?s1 = (r, s2)"
    by (cases "try_block env ?s1")
  with try_block_submissions[of env ?s1] t show ?thesis
    by (auto simp add: populate_with_mock_data_def Let_def split: sum.splits option.splits)
qed

lemma lock_acquired_simps [simp]:
  "populationAttempted (lock_acquired env s)"
  "contact_form_submissions (db (lock_acquired env s)) = contact_form_submissions (db s)"
  "mock_data_execution (db (lock_acquired env s)) =
     mock_data_execution (db s) @
       [(seed_id, write_fields (dollar_setOnInsert (lock_update env)) [])]"
  "pending (lock_acquired env s) = pending s"
  "calls (lock_acquired env s) =
     calls s @ [Call_getDb, Call_updateOne (lock_update env) True False, Call_getClient,
                Call_startSession]"
  by (simp_all add: lock_acquired_def)

text \<open>The routine when the flag record is already there.\<close>

lemma populate_present:
  assumes "map_of (mock_data_execution (db s)) seed_id = Some d"
    and "\<not> populationAttempted s"
    and "getDb_throws env = None"
  shows "populate_with_mock_data env s =
           (case updateOne_lock_throws env of
              None \<Rightarrow> Inr ()
            | Some e \<Rightarrow> if code e = NumCode 11000 then Inr () else Inl e,
            log_call (Call_updateOne (lock_update env) True False)
              (log_call Call_getDb (s\<lparr> populationAttempted := True \<rparr>)))"
proof -
  let ?s1 = "log_call Call_getDb (s\<lparr> populationAttempted := True \<rparr>)"
  have "map_of (mock_data_execution (db ?s1)) seed_id = Some d"
    using assms(1) by simp
  then have "try_block env ?s1 =
           (case updateOne_lock_throws env of Some e \<Rightarrow> Inl e | None \<Rightarrow> Inr (),
            log_call (Call_updateOne (lock_update env) True False) ?s1)"
    by (rule try_block_present)
  with assms(2,3) show ?thesis
    by (simp add: populate_with_mock_data_def Let_def split: option.splits)
qed

text \<open>The routine when it inserts the flag record and reaches the transaction.\<close>

lemma populate_acquired:
  assumes "map_of (mock_data_execution (db s)) seed_id = None"
    and "\<not> populationAttempted s"
    and "reaches_transaction env"
  shows "populate_with_mock_data env s =
           (case transaction_error env of
              None \<Rightarrow> Inr ()
            | Some e \<Rightarrow> if code e = NumCode 11000 then Inr () else Inl e,
            snd (run_transaction env (lock_acquired env s)))"
proof -
  let ?s1 = "log_call Call_getDb (s\<lparr> populationAttempted := True \<rparr>)"
  have "map_of (mock_data_execution (db ?s1)) seed_id = None"
    using assms(1) by simp
  with assms(3) have "try_block env ?s1 = run_transaction env (lock_acquired env s)"
    using try_block_absent[of ?s1 env]
    by (simp add: lock_acquired_def reaches_transaction_def)
  moreover obtain r s2 where rs: "run_transaction env (lock_acquired env s) = (r, s2)"
    by (cases "run_transaction env (lock_acquired env s)")
  moreover from rs run_transaction_result[of env "lock_acquired env s"]
  have "r = (case transaction_error env of Some e \<Rightarrow> Inl e | None \<Rightarrow> Inr ())"
    by simp
  ultimately show ?thesis
    using assms(2,3)
    by (simp add: populate_with_mock_data_def Let_def reaches_transaction_def
          split: option.splits)
qed

lemma lock_fields_written:
  "write_fields (dollar_setOnInsert (lock_update env)) [] =
     [(''executed'', Bool True), (''timestamp'', Num (now_lock env div 1000)),
      (''instance'', Str (''instance-'' @ random_token env))]"
  by (simp add: lock_update_def write_fields_def)

lemma failed_fields_written:
  "write_fields (dollar_set (failed_update env e))
     [(''executed'', x), (''timestamp'', y), (''instance'', z)] =
     [(''executed'', x), (''timestamp'', y), (''instance'', z),
      (''failed'', Bool True), (''failedTimestamp'', Num (now_failed env div 1000)),
      (''error'', Str (descr e))]"
  by (simp add: failed_update_def write_fields_def)

lemma completed_fields_written:
  "write_fields (dollar_set (completed_update a))
     [(''executed'', x), (''timestamp'', y), (''instance'', z)] =
     [(''executed'', x), (''timestamp'', y), (''instance'', z),
      (''completed'', Bool True), (''completedTimestamp'', Num (now_completed a div 1000))]"
  by (simp add: completed_update_def write_fields_def)

text \<open>The flag record after a transaction that failed, for the process that inserted it.\<close>

lemma record_after_failure:
  assumes "map_of (mock_data_execution (db s)) seed_id = None"
  shows "map_of (mock_data_execution (marked_failed env e (db (lock_acquired env s)))) seed_id =
           Some [(''executed'', Bool True), (''timestamp'', Num (now_lock env div 1000)),
                 (''instance'', Str (''instance-'' @ random_token env)),
                 (''failed'', Bool True), (''failedTimestamp'', Num (now_failed env div 1000)),
                 (''error'', Str (descr e))]"
proof -
  let ?d = "write_fields (dollar_setOnInsert (lock_update env)) []"
  have "map_of (mock_data_execution (db (lock_acquired env s))) seed_id = Some ?d"
    using assms by (simp add: map_add_def)
  then have "updateOne (mock_data_execution (db (lock_acquired env s))) seed_id
               (failed_update env e) False =
             (AList.update seed_id (write_fields (dollar_set (failed_update env e)) ?d)
                (mock_data_execution (db (lock_acquired env s))),
              \<lparr> matchedCount = 1, upsertedCount = 0 \<rparr>)"
    by (rule updateOne_present)
  then show ?thesis
    by (simp add: marked_failed_def map_of_update_same lock_fields_written
          failed_fields_written del: lock_acquired_simps)
qed

lemma record_after_lock:
  assumes "map_of (mock_data_execution (db s)) seed_id = None"
  shows "map_of (mock_data_execution (db (lock_acquired env s))) seed_id =
           Some [(''executed'', Bool True), (''timestamp'', Num (now_lock env div 1000)),
                 (''instance'', Str (''instance-'' @ random_token env))]"
  using assms by (simp add: map_add_def lock_fields_written)

lemma record_after_commit:
  assumes "map_of (mock_data_execution (db s)) seed_id = None"
  shows "map_of (mock_data_execution (committed a (db (lock_acquired env s)))) seed_id =
           Some [(''executed'', Bool True), (''timestamp'', Num (now_lock env div 1000)),
                 (''instance'', Str (''instance-'' @ random_token env)),
                 (''completed'', Bool True),
                 (''completedTimestamp'', Num (now_completed a div 1000))]"
proof -
  let ?d = "write_fields (dollar_setOnInsert (lock_update env)) []"
  have "map_of (mock_data_execution (db (lock_acquired env s))) seed_id = Some ?d"
    using assms by (simp add: map_add_def)
  then have "updateOne (mock_data_execution (db (lock_acquired env s))) seed_id
               (completed_update a) False =
             (AList.update seed_id (write_fields (dollar_set (completed_update a)) ?d)
                (mock_data_execution (db (lock_acquired env s))),
              \<lparr> matchedCount = 1, upsertedCount = 0 \<rparr>)"
    by (rule updateOne_present)
  then show ?thesis
    by (simp add: committed_def map_of_update_same lock_fields_written
          completed_fields_written del: lock_acquired_simps)
qed

lemma fresh_simps [simp]:
  "\<not> populationAttempted fresh"
  "mock_data_execution (db fresh) = []"
  "contact_form_submissions (db fresh) = []"
  "pending fresh = []"
  "calls fresh = []"
  by (simp_all add: fresh_def fresh_database_def)

lemma seeded_simps [simp]:
  "\<not> populationAttempted seeded"
  "mock_data_execution (db seeded) = [(seed_id, locked_record)]"
  "contact_form_submissions (db seeded) = []"
  "pending seeded = []"
  "calls seeded = []"
  by (simp_all add: seeded_def)

lemma error_simps [simp]:
  "code duplicate_key_error = NumCode 11000"
  "code network_error = StrCode ''ECONNRESET''"
  "descr duplicate_key_error = ''MongoBulkWriteError: E11000 duplicate key error''"
  "descr network_error = ''MongoNetworkError: connection closed''"
  "\<not> transient duplicate_key_error"
  "transient network_error"
  by (simp_all add: duplicate_key_error_def network_error_def)

lemma attempt_ok_simps [simp]:
  "insertMany_throws attempt_ok = None"
  "updateOne_completed_throws attempt_ok = None"
  "commit_throws attempt_ok = None"
  "attempt_error attempt_ok = None"
  "now_completed attempt_ok = 1700000000000"
  "now_batch attempt_ok = (\<lambda>i. 1700000000000)"
  "new_id attempt_ok = example_new_id"
  by (simp_all add: attempt_ok_def attempt_error_def)

lemma attempt_completion_fails_simps [simp]:
  "insertMany_throws attempt_completion_fails = None"
  "updateOne_completed_throws attempt_completion_fails = Some network_error"
  "attempt_error attempt_completion_fails = Some network_error"
  "now_batch attempt_completion_fails = (\<lambda>i. 1700000000000)"
  "new_id attempt_completion_fails = example_new_id"
  by (simp_all add: attempt_completion_fails_def attempt_error_def)

lemma env_ok_simps [simp]:
  "reaches_transaction env_ok"
  "first_attempt env_ok = attempt_ok"
  "later_attempts env_ok = []"
  "transaction_error env_ok = None"
  "committed_attempt env_ok = Some attempt_ok"
  "getDb_throws env_ok = None"
  "updateOne_lock_throws env_ok = None"
  "updateOne_failed_throws env_ok = None"
  "now_lock env_ok = 1700000000000"
  "now_failed env_ok = 1700000000000"
  "random_token env_ok = ''k3x9q2m7p1z''"
  by (simp_all add: env_ok_def reaches_transaction_def transaction_error_def
        committed_attempt_def)

lemma env_duplicate_key_simps [simp]:
  "reaches_transaction env_duplicate_key"
  "later_attempts env_duplicate_key = []"
  "insertMany_throws (first_attempt env_duplicate_key) = Some duplicate_key_error"
  "transaction_error env_duplicate_key = Some duplicate_key_error"
  "updateOne_failed_throws env_duplicate_key = None"
  "now_lock env_duplicate_key = 1700000000000"
  "now_failed env_duplicate_key = 1700000000000"
  "random_token env_duplicate_key = ''k3x9q2m7p1z''"
  by (simp_all add: env_duplicate_key_def env_ok_def reaches_transaction_def
        transaction_error_def attempt_error_def)

lemma env_duplicate_key_then_outage_simps [simp]:
  "reaches_transaction env_duplicate_key_then_outage"
  "later_attempts env_duplicate_key_then_outage = []"
  "insertMany_throws (first_attempt env_duplicate_key_then_outage) = Some duplicate_key_error"
  "transaction_error env_duplicate_key_then_outage = Some duplicate_key_error"
  "updateOne_failed_throws env_duplicate_key_then_outage = Some network_error"
  "now_lock env_duplicate_key_then_outage = 1700000000000"
  "random_token env_duplicate_key_then_outage = ''k3x9q2m7p1z''"
  by (simp_all add: env_duplicate_key_then_outage_def env_duplicate_key_def env_ok_def
        reaches_transaction_def transaction_error_def attempt_error_def)

lemma env_completion_fails_simps [simp]:
  "reaches_transaction env_completion_fails"
  "first_attempt env_completion_fails = attempt_completion_fails"
  "later_attempts env_completion_fails = [attempt_completion_fails]"
  "completion_always_throws env_completion_fails"
  "transaction_error env_completion_fails = Some network_error"
  "updateOne_failed_throws env_completion_fails = None"
  "now_lock env_completion_fails = 1700000000000"
  "now_failed env_completion_fails = 1700000000000"
  "random_token env_completion_fails = ''k3x9q2m7p1z''"
  by (simp_all add: env_completion_fails_def env_ok_def reaches_transaction_def
        transaction_error_def completion_always_throws_def)

lemma env_completion_fails_once_simps [simp]:
  "reaches_transaction env_completion_fails_once"
  "first_attempt env_completion_fails_once = attempt_completion_fails"
  "later_attempts env_completion_fails_once = [attempt_ok]"
  "transaction_error env_completion_fails_once = None"
  "committed_attempt env_completion_fails_once = Some attempt_ok"
  "updateOne_failed_throws env_completion_fails_once = None"
  "now_lock env_completion_fails_once = 1700000000000"
  "random_token env_completion_fails_once = ''k3x9q2m7p1z''"
  by (simp_all add: env_completion_fails_once_def env_ok_def reaches_transaction_def
        transaction_error_def committed_attempt_def)

lemma env_lock_outage_simps [simp]:
  "getDb_throws env_lock_outage = None"
  "updateOne_lock_throws env_lock_outage = Some network_error"
  by (simp_all add: env_lock_outage_def env_ok_def)

lemma seed_id_locked_record [simp]:
  "map_of [(seed_id, locked_record)] seed_id = Some locked_record"
  by simp

text \<open>
  Claim C8. The conditional insert of the routine, on a collection that already holds
  a record under the fixed identifier, leaves the collection as it is (every field of
  the record keeps its value) and reports no insertion; on a collection without
  such a record it appends a record holding exactly \<open>executed\<close>, \<open>timestamp\<close> and
  \<open>instance\<close>.
\<close>

theorem C8_conditional_insert_frame:
  "(map_of c seed_id = Some d \<longrightarrow>
      updateOne c seed_id (lock_update env) True =
        (c, \<lparr> matchedCount = 1, upsertedCount = 0 \<rparr>))
   \<and> (map_of c seed_id = None \<longrightarrow>
      updateOne c seed_id (lock_update env) True =
        (c @ [(seed_id,
               [(''executed'', Bool True), (''timestamp'', Num (now_lock env div 1000)),
                (''instance'', Str (''instance-'' @ random_token env))])],
         \<lparr> matchedCount = 0, upsertedCount = 1 \<rparr>))"
proof -
  have s: "dollar_set (lock_update env) = []"
    by (simp add: lock_update_def)
  show ?thesis
    by (simp add: updateOne_setOnInsert_only[OF _ s] updateOne_absent_upsert s
          lock_fields_written)
qed

theorem C8_conditional_insert_frame_witness:
  "map_of [(seed_id, locked_record @ [(''failed'', Bool True)])] seed_id =
     Some (locked_record @ [(''failed'', Bool True)])
   \<and> updateOne [(seed_id, locked_record @ [(''failed'', Bool True)])] seed_id
        (lock_update env_ok) True =
       ([(seed_id, locked_record @ [(''failed'', Bool True)])],
        \<lparr> matchedCount = 1, upsertedCount = 0 \<rparr>)
   \<and> map_of ([] :: document collection) seed_id = None
   \<and> updateOne [] seed_id (lock_update env_ok) True =
       ([(seed_id, locked_record)], \<lparr> matchedCount = 0, upsertedCount = 1 \<rparr>)"
proof -
  have a: "map_of [(seed_id, locked_record @ [(''failed'', Bool True)])] seed_id =
             Some (locked_record @ [(''failed'', Bool True)])"
    by simp
  have b: "map_of ([] :: document collection) seed_id = None"
    by simp
  from a b
    C8_conditional_insert_frame[of "[(seed_id, locked_record @ [(''failed'', Bool True)])]"
      "locked_record @ [(''failed'', Bool True)]" env_ok]
    C8_conditional_insert_frame[of "[]" d env_ok]
  show ?thesis
    by (simp add: locked_record_def)
qed

text \<open>
  Claim C3. In every datastore state that holds a record under the fixed identifier,
  a call leaves the database as it is (no write to the submissions collection, none
  to the record) and makes no batch insert; with \<^verbatim>\<open>getDb\<close> and the conditional insert
  returning, it returns normally. The result in full: a normal return when the
  process had already tried, and otherwise what \<^verbatim>\<open>getDb\<close> throws, or else what the
  conditional insert throws unless its code is 11000.
\<close>

theorem C3_already_seeded:
  assumes "map_of (mock_data_execution (db s)) seed_id = Some d"
  shows "db (snd (populate_with_mock_data env s)) = db s
    \<and> batch_inserts (calls (snd (populate_with_mock_data env s))) = batch_inserts (calls s)
    \<and> (getDb_throws env = None \<longrightarrow> updateOne_lock_throws env = None \<longrightarrow>
         fst (populate_with_mock_data env s) = Inr ())
    \<and> fst (populate_with_mock_data env s) =
        (if populationAttempted s then Inr ()
         else case getDb_throws env of
                Some e \<Rightarrow> Inl e
              | None \<Rightarrow>
                  (case updateOne_lock_throws env of
                     None \<Rightarrow> Inr ()
                   | Some e \<Rightarrow> if code e = NumCode 11000 then Inr () else Inl e))"
proof (cases "populationAttempted s")
  case True
  then show ?thesis
    by (simp add: populate_when_flag_set)
next
  case False
  show ?thesis
  proof (cases "getDb_throws env")
    case None
    with False show ?thesis
      by (simp add: populate_present[OF assms False None])
  next
    case (Some e)
    with False show ?thesis
      by (simp add: populate_with_mock_data_def Let_def)
  qed
qed

theorem C3_already_seeded_witness:
  "map_of (mock_data_execution (db seeded)) seed_id = Some locked_record
   \<and> getDb_throws env_ok = None \<and> updateOne_lock_throws env_ok = None
   \<and> db (snd (populate_with_mock_data env_ok seeded)) = db seeded
   \<and> batch_inserts (calls (snd (populate_with_mock_data env_ok seeded))) = 0
   \<and> fst (populate_with_mock_data env_ok seeded) = Inr ()"
proof -
  have h: "map_of (mock_data_execution (db seeded)) seed_id = Some locked_record"
    by simp
  with C3_already_seeded[OF h, of env_ok] show ?thesis
    by simp
qed

text \<open>
  The run on an unused datastore when the calls return and a run of the callback
  commits: the call returns normally, the batch of that run is appended to the
  submissions collection, and the flag record is marked completed and not failed.
\<close>

lemma populate_success:
  assumes "\<not> populationAttempted s"
    and "map_of (mock_data_execution (db s)) seed_id = None"
    and "reaches_transaction env"
    and "committed_attempt env = Some a"
  shows "fst (populate_with_mock_data env s) = Inr ()"
    and "contact_form_submissions (db (snd (populate_with_mock_data env s))) =
           insertMany (contact_form_submissions (db s)) (new_id a)
             (mockSubmissions (now_batch a))"
    and "map_of (mock_data_execution (db (snd (populate_with_mock_data env s)))) seed_id =
           Some [(''executed'', Bool True), (''timestamp'', Num (now_lock env div 1000)),
                 (''instance'', Str (''instance-'' @ random_token env)),
                 (''completed'', Bool True),
                 (''completedTimestamp'', Num (now_completed a div 1000))]"
proof -
  have o: "outcome (first_attempt env) (later_attempts env) = Inr a"
    using assms(4) by (simp add: transaction_error_outcome)
  then have t: "transaction_error env = None"
    by (simp add: transaction_error_def)
  have p: "populate_with_mock_data env s =
             (Inr (), snd (run_transaction env (lock_acquired env s)))"
    by (simp add: populate_acquired[OF assms(2,1,3)] t)
  have d: "db (snd (run_transaction env (lock_acquired env s))) =
             committed a (db (lock_acquired env s))"
    by (simp add: run_transaction_db o)
  show "fst (populate_with_mock_data env s) = Inr ()"
    by (simp add: p)
  show "contact_form_submissions (db (snd (populate_with_mock_data env s))) =
           insertMany (contact_form_submissions (db s)) (new_id a)
             (mockSubmissions (now_batch a))"
    by (simp add: p d committed_def)
  show "map_of (mock_data_execution (db (snd (populate_with_mock_data env s)))) seed_id =
           Some [(''executed'', Bool True), (''timestamp'', Num (now_lock env div 1000)),
                 (''instance'', Str (''instance-'' @ random_token env)),
                 (''completed'', Bool True),
                 (''completedTimestamp'', Num (now_completed a div 1000))]"
    using record_after_commit[OF assms(2), of a env] by (simp only: p d snd_conv)
qed

text \<open>When the completion update throws in every run, \<^verbatim>\<open>withTransaction\<close> throws.\<close>

lemma completion_throws_outcome:
  assumes "list_all (\<lambda>a. insertMany_throws a = None \<and> updateOne_completed_throws a \<noteq> None)
             (a # later)"
  shows "\<exists>e. outcome a later = Inl e"
  using assms
proof (induction later arbitrary: a)
  case Nil
  then show ?case
    by (auto simp: attempt_error_def)
next
  case (Cons a1 later)
  from Cons.prems have "\<exists>e. outcome a1 later = Inl e"
    by (intro Cons.IH) simp
  with Cons.prems show ?case
    by (auto simp: attempt_error_def)
qed

text \<open>
  Claim C2, as amended. A process finds no flag record, inserts it, opens the session
  and makes the batch insert; the completion update throws, in the first run of the
  callback and in every further run the driver makes. Then \<^verbatim>\<open>withTransaction\<close> throws,
  and after the call the submissions collection is what it was before the call (none
  of the batch is in it: the batch insert was made with the session, whose
  transaction is aborted), and the flag record holds \<open>executed\<close>, \<open>timestamp\<close> and
  \<open>instance\<close>, no \<open>completed\<close> field, and the fields \<open>failed = true\<close>,
  \<open>failedTimestamp\<close> and \<open>error\<close> exactly when the update that records the failure
  did not throw itself.
\<close>

theorem C2_completion_update_fails:
  assumes "\<not> populationAttempted s"
    and "map_of (mock_data_execution (db s)) seed_id = None"
    and "reaches_transaction env"
    and "completion_always_throws env"
  shows "contact_form_submissions (db (snd (populate_with_mock_data env s))) =
           contact_form_submissions (db s)
    \<and> batch_inserts (calls s) < batch_inserts (calls (snd (populate_with_mock_data env s)))
    \<and> (\<exists>e. transaction_error env = Some e
         \<and> map_of (mock_data_execution (db (snd (populate_with_mock_data env s)))) seed_id =
             Some ([(''executed'', Bool True), (''timestamp'', Num (now_lock env div 1000)),
                    (''instance'', Str (''instance-'' @ random_token env))] @
                   (case updateOne_failed_throws env of
                      Some updateError \<Rightarrow> []
                    | None \<Rightarrow>
                        [(''failed'', Bool True),
                         (''failedTimestamp'', Num (now_failed env div 1000)),
                         (''error'', Str (descr e))])))"
proof -
  from assms(4) obtain e where o: "outcome (first_attempt env) (later_attempts env) = Inl e"
    using completion_throws_outcome[of "first_attempt env" "later_attempts env"]
    by (auto simp: completion_always_throws_def)
  then have t: "transaction_error env = Some e"
    by (simp add: transaction_error_def)
  have p: "snd (populate_with_mock_data env s) = snd (run_transaction env (lock_acquired env s))"
    by (simp add: populate_acquired[OF assms(2,1,3)])
  have d: "db (snd (run_transaction env (lock_acquired env s))) =
             (case updateOne_failed_throws env of
                Some updateError \<Rightarrow> db (lock_acquired env s)
              | None \<Rightarrow> marked_failed env e (db (lock_acquired env s)))"
    by (simp add: run_transaction_db o)
  have 1: "contact_form_submissions (db (snd (populate_with_mock_data env s))) =
             contact_form_submissions (db s)"
    by (simp add: p d marked_failed_def split: option.splits)
  have 2: "batch_inserts (calls s) < batch_inserts (calls (snd (populate_with_mock_data env s)))"
    using transaction_calls_positive[of "first_attempt env" "later_attempts env"]
    by (simp add: p run_transaction_batch_inserts)
  have 3: "map_of (mock_data_execution (db (snd (populate_with_mock_data env s)))) seed_id =
        Some ([(''executed'', Bool True), (''timestamp'', Num (now_lock env div 1000)),
               (''instance'', Str (''instance-'' @ random_token env))] @
              (case updateOne_failed_throws env of
                 Some updateError \<Rightarrow> []
               | None \<Rightarrow>
                   [(''failed'', Bool True), (''failedTimestamp'', Num (now_failed env div 1000)),
                    (''error'', Str (descr e))]))"
  proof (cases "updateOne_failed_throws env")
    case None
    then show ?thesis
      using record_after_failure[OF assms(2), of env e] by (simp only: p d) simp
  next
    case (Some updateError)
    then show ?thesis
      using record_after_lock[OF assms(2), of env] by (simp only: p d) simp
  qed
  from 1 2 3 t show ?thesis
    by blast
qed

theorem C2_completion_update_fails_witness:
  "\<not> populationAttempted fresh
   \<and> map_of (mock_data_execution (db fresh)) seed_id = None
   \<and> reaches_transaction env_completion_fails
   \<and> completion_always_throws env_completion_fails
   \<and> contact_form_submissions (db (snd (populate_with_mock_data env_completion_fails fresh))) = []
   \<and> batch_inserts (calls (snd (populate_with_mock_data env_completion_fails fresh))) > 0
   \<and> map_of (mock_data_execution (db (snd (populate_with_mock_data env_completion_fails fresh))))
        seed_id =
       Some [(''executed'', Bool True), (''timestamp'', Num 1700000000),
             (''instance'', Str ''instance-k3x9q2m7p1z''),
             (''failed'', Bool True), (''failedTimestamp'', Num 1700000000),
             (''error'', Str ''MongoNetworkError: connection closed'')]"
proof -
  have h: "\<not> populationAttempted fresh" "map_of (mock_data_execution (db fresh)) seed_id = None"
    "reaches_transaction env_completion_fails" "completion_always_throws env_completion_fails"
    by simp_all
  from C2_completion_update_fails[OF h] h show ?thesis
    by simp
qed

text \<open>
  The completion update throws in the first run of the callback, after the batch
  insert; the error is a lost connection, so the driver runs the callback again, and
  in that run every call returns. After the call the submissions collection holds
  the ten documents of the batch and the flag record is marked completed, not failed.
\<close>

theorem C2_counterexample:
  "\<not> populationAttempted fresh
   \<and> map_of (mock_data_execution (db fresh)) seed_id = None
   \<and> reaches_transaction env_completion_fails_once
   \<and> insertMany_throws (first_attempt env_completion_fails_once) = None
   \<and> updateOne_completed_throws (first_attempt env_completion_fails_once) = Some network_error
   \<and> fst (populate_with_mock_data env_completion_fails_once fresh) = Inr ()
   \<and> length (contact_form_submissions
        (db (snd (populate_with_mock_data env_completion_fails_once fresh)))) = 10
   \<and> map snd (contact_form_submissions
        (db (snd (populate_with_mock_data env_completion_fails_once fresh)))) =
       mockSubmissions (\<lambda>i. 1700000000000)
   \<and> map_of (mock_data_execution
        (db (snd (populate_with_mock_data env_completion_fails_once fresh)))) seed_id =
       Some [(''executed'', Bool True), (''timestamp'', Num 1700000000),
             (''instance'', Str ''instance-k3x9q2m7p1z''),
             (''completed'', Bool True), (''completedTimestamp'', Num 1700000000)]"
proof -
  have h: "\<not> populationAttempted fresh" "map_of (mock_data_execution (db fresh)) seed_id = None"
    "reaches_transaction env_completion_fails_once"
    "committed_attempt env_completion_fails_once = Some attempt_ok"
    by simp_all
  have l: "length (mockSubmissions (\<lambda>i. 1700000000000)) = 10"
    by (rule length_mockSubmissions)
  from populate_success[OF h] l show ?thesis
    by (simp add: insertMany_def)
qed

text \<open>
  An outage of the datastore at the conditional insert is thrown to the caller,
  also when the flag record is there.
\<close>

lemma lock_outage_raises:
  "fst (populate_with_mock_data env_lock_outage seeded) = Inl network_error"
proof -
  have h: "map_of (mock_data_execution (db seeded)) seed_id = Some locked_record"
    by simp
  have "populate_with_mock_data env_lock_outage seeded =
          (Inl network_error,
           log_call (Call_updateOne (lock_update env_lock_outage) True False)
             (log_call Call_getDb (seeded\<lparr> populationAttempted := True \<rparr>)))"
    by (simp add: populate_present[OF h])
  then show ?thesis
    by simp
qed

text \<open>
  What the routine does with a failure of the transaction, for a process that
  inserted the flag record: the error is thrown to the caller unless its code is
  11000; the update recording the failure is attempted after the transaction, outside
  the session; what that update throws is never what the caller sees.
\<close>

lemma transaction_failure_outcome:
  assumes "\<not> populationAttempted s"
    and "map_of (mock_data_execution (db s)) seed_id = None"
    and "reaches_transaction env"
    and "transaction_error env = Some e"
  shows "fst (populate_with_mock_data env s) =
           (if code e = NumCode 11000 then Inr () else Inl e)"
  by (simp add: populate_acquired[OF assms(2,1,3)] assms(4))

lemma transaction_failure_recorded:
  assumes "\<not> populationAttempted s"
    and "map_of (mock_data_execution (db s)) seed_id = None"
    and "reaches_transaction env"
    and "transaction_error env = Some e"
  shows "calls (snd (populate_with_mock_data env s)) =
           calls (lock_acquired env s) @
             Call_withTransaction #
             transaction_calls (first_attempt env) (later_attempts env) @
             [Call_updateOne (failed_update env e) False False, Call_endSession]"
  by (simp add: populate_acquired[OF assms(2,1,3)] run_transaction_calls assms(4)
        del: lock_acquired_simps)

lemma lock_conflict_returns:
  assumes "\<not> populationAttempted s"
    and "getDb_throws env = None"
    and "updateOne_lock_throws env = Some e"
    and "code e = NumCode 11000"
  shows "fst (populate_with_mock_data env s) = Inr ()
         \<and> db (snd (populate_with_mock_data env s)) = db s"
  using assms by (simp add: populate_with_mock_data_def try_block_def Let_def)

text \<open>
  Claim C5 at a failing input. On an unused datastore every call returns, except that
  the batch insert inside the transaction throws a duplicate-key error (code 11000).
  The transaction fails with that error, the record is marked failed and the
  collection is left empty, yet the call returns normally: the outer handler takes
  the error thrown again by the inner handler for a lost race on the conditional
  insert.
\<close>

theorem C5_transaction_error_11000_not_raised:
  "transaction_error env_duplicate_key = Some duplicate_key_error
   \<and> fst (populate_with_mock_data env_duplicate_key fresh) = Inr ()
   \<and> contact_form_submissions (db (snd (populate_with_mock_data env_duplicate_key fresh))) = []
   \<and> map_of (mock_data_execution (db (snd (populate_with_mock_data env_duplicate_key fresh))))
        seed_id =
       Some [(''executed'', Bool True), (''timestamp'', Num 1700000000),
             (''instance'', Str ''instance-k3x9q2m7p1z''),
             (''failed'', Bool True), (''failedTimestamp'', Num 1700000000),
             (''error'', Str ''MongoBulkWriteError: E11000 duplicate key error'')]"
proof -
  have n: "map_of (mock_data_execution (db fresh)) seed_id = None"
    by simp
  have p: "populate_with_mock_data env_duplicate_key fresh =
          (Inr (), snd (run_transaction env_duplicate_key (lock_acquired env_duplicate_key fresh)))"
    by (simp add: populate_acquired[OF n])
  have o: "outcome (first_attempt env_duplicate_key) (later_attempts env_duplicate_key) =
             Inl duplicate_key_error"
    using transaction_error_outcome(1)[of env_duplicate_key duplicate_key_error] by simp
  have d: "db (snd (run_transaction env_duplicate_key (lock_acquired env_duplicate_key fresh))) =
             marked_failed env_duplicate_key duplicate_key_error
               (db (lock_acquired env_duplicate_key fresh))"
    unfolding run_transaction_db o by simp
  have "contact_form_submissions
          (db (snd (populate_with_mock_data env_duplicate_key fresh))) = []"
    by (simp add: p d marked_failed_def)
  moreover have "map_of (mock_data_execution
       (db (snd (populate_with_mock_data env_duplicate_key fresh)))) seed_id =
       Some [(''executed'', Bool True), (''timestamp'', Num 1700000000),
             (''instance'', Str ''instance-k3x9q2m7p1z''),
             (''failed'', Bool True), (''failedTimestamp'', Num 1700000000),
             (''error'', Str ''MongoBulkWriteError: E11000 duplicate key error'')]"
    using record_after_failure[OF n, of env_duplicate_key duplicate_key_error]
    by (simp only: p d snd_conv) simp
  ultimately show ?thesis
    by (simp add: p)
qed

text \<open>
  Claim C6 at a failing input. As before the batch insert throws a duplicate-key
  error; now the update that records the failure throws as well. That update is
  attempted, after the transaction and outside the session, and what it throws is
  dropped; but the original error is not thrown to the caller either: the call
  returns normally, the record showing neither \<open>failed\<close> nor \<open>completed\<close>.
\<close>

theorem C6_original_error_11000_not_raised:
  "transaction_error env_duplicate_key_then_outage = Some duplicate_key_error
   \<and> updateOne_failed_throws env_duplicate_key_then_outage = Some network_error
   \<and> fst (populate_with_mock_data env_duplicate_key_then_outage fresh) = Inr ()
   \<and> calls (snd (populate_with_mock_data env_duplicate_key_then_outage fresh)) =
       [Call_getDb, Call_updateOne (lock_update env_duplicate_key_then_outage) True False,
        Call_getClient, Call_startSession, Call_withTransaction,
        Call_insertMany
          (mockSubmissions (now_batch (first_attempt env_duplicate_key_then_outage))) True,
        Call_updateOne (failed_update env_duplicate_key_then_outage duplicate_key_error)
          False False,
        Call_endSession]
   \<and> map_of (mock_data_execution
        (db (snd (populate_with_mock_data env_duplicate_key_then_outage fresh)))) seed_id =
       Some [(''executed'', Bool True), (''timestamp'', Num 1700000000),
             (''instance'', Str ''instance-k3x9q2m7p1z'')]"
proof -
  let ?env = env_duplicate_key_then_outage
  have n: "map_of (mock_data_execution (db fresh)) seed_id = None"
    by simp
  have p: "populate_with_mock_data ?env fresh =
          (Inr (), snd (run_transaction ?env (lock_acquired ?env fresh)))"
    by (simp add: populate_acquired[OF n])
  have o: "outcome (first_attempt ?env) (later_attempts ?env) = Inl duplicate_key_error"
    using transaction_error_outcome(1)[of ?env duplicate_key_error] by simp
  have d: "db (snd (run_transaction ?env (lock_acquired ?env fresh))) =
             db (lock_acquired ?env fresh)"
    unfolding run_transaction_db o by simp
  have c: "calls (snd (populate_with_mock_data ?env fresh)) =
       [Call_getDb, Call_updateOne (lock_update ?env) True False,
        Call_getClient, Call_startSession, Call_withTransaction,
        Call_insertMany (mockSubmissions (now_batch (first_attempt ?env))) True,
        Call_updateOne (failed_update ?env duplicate_key_error) False False,
        Call_endSession]"
    by (simp add: p run_transaction_calls attempt_calls_def)
  have r: "map_of (mock_data_execution (db (snd (populate_with_mock_data ?env fresh)))) seed_id =
       Some [(''executed'', Bool True), (''timestamp'', Num 1700000000),
             (''instance'', Str ''instance-k3x9q2m7p1z'')]"
    using record_after_lock[OF n, of ?env] by (simp only: p d snd_conv) simp
  from c r show ?thesis
    by (simp add: p)
qed

text \<open>
  Claim C4, as amended. Two calls in a row in one process: the second returns at once
  with a normal return, leaves the database as the first call left it and makes no
  call to the datastore client, whatever the first call did and whatever the
  datastore would have answered. Over the two calls the batch insert is made at most
  once for each run of the transaction callback the driver makes in the first call
  (one run, and one more for each time it runs the callback again), and the
  submissions collection gains nothing or the batch of the one run that committed.
\<close>

theorem C4_second_call_is_noop:
  "populate_with_mock_data env2 (snd (populate_with_mock_data env1 s)) =
     (Inr (), snd (populate_with_mock_data env1 s))
   \<and> batch_inserts
        (calls (snd (populate_with_mock_data env2 (snd (populate_with_mock_data env1 s)))))
       \<le> batch_inserts (calls s) + Suc (length (later_attempts env1))
   \<and> (contact_form_submissions
         (db (snd (populate_with_mock_data env2 (snd (populate_with_mock_data env1 s))))) =
         contact_form_submissions (db s)
       \<or> (\<exists>a. committed_attempt env1 = Some a \<and>
            contact_form_submissions
              (db (snd (populate_with_mock_data env2 (snd (populate_with_mock_data env1 s))))) =
              contact_form_submissions (db s) @ one_batch a))"
proof -
  have "populate_with_mock_data env2 (snd (populate_with_mock_data env1 s)) =
          (Inr (), snd (populate_with_mock_data env1 s))"
    using populate_sets_flag by (rule populate_when_flag_set)
  then show ?thesis
    using populate_batch_inserts_bound[of env1 s] populate_submissions[of env1 s] by simp
qed

text \<open>
  In the first of two calls the completion update loses its connection; the driver
  runs the callback again, and the batch insert is made a second time.
\<close>

theorem C4_counterexample:
  "batch_inserts (calls fresh) = 0
   \<and> batch_inserts
        (calls (snd (populate_with_mock_data env_ok
           (snd (populate_with_mock_data env_completion_fails_once fresh))))) = 2"
proof -
  have n: "map_of (mock_data_execution (db fresh)) seed_id = None"
    by simp
  have "populate_with_mock_data env_ok
          (snd (populate_with_mock_data env_completion_fails_once fresh)) =
        (Inr (), snd (populate_with_mock_data env_completion_fails_once fresh))"
    using populate_sets_flag by (rule populate_when_flag_set)
  moreover have "snd (populate_with_mock_data env_completion_fails_once fresh) =
          snd (run_transaction env_completion_fails_once
                 (lock_acquired env_completion_fails_once fresh))"
    by (simp add: populate_acquired[OF n])
  ultimately show ?thesis
    by (simp add: run_transaction_batch_inserts)
qed

section \<open>Properties of the model class\<close>

lemma seed_id_ObjectId: "ObjectId ''000000000000000000000001'' = Inr seed_id"
  by (simp add: ObjectId_def is_hex_def to_lower_hex_def seed_id_def)

lemma catch_return_never_throws: "\<exists>r. fst (catch_return v x) = Inr r"
  by (cases x) (auto simp: catch_return_def split: sum.splits)

lemma catch_return_Inl:
  assumes "fst x = Inl e"
  shows "fst (catch_return v x) = Inr v"
  using assms by (cases x) (simp add: catch_return_def)

lemma catch_return_Inr:
  assumes "fst x = Inr r"
  shows "fst (catch_return v x) = Inr r"
  using assms by (cases x) (simp add: catch_return_def)

lemma snd_catch_return [simp]: "snd (catch_return v x) = snd x"
  by (cases x) (simp add: catch_return_def split: sum.splits)

lemma findOneAndUpdate_timestamps:
  assumes "set_submission_timestamp f = None"
  shows "map (\<lambda>p. (fst p, submission_timestamp (snd p))) (fst (findOneAndUpdate c i f)) =
         map (\<lambda>p. (fst p, submission_timestamp (snd p))) c"
  using assms by (induction c) (simp_all add: dollar_set_fields_def)

lemma update_try_timestamps:
  assumes "set_submission_timestamp f = None"
  shows "stored_timestamps (snd (update_try env i f d)) = stored_timestamps d"
proof -
  have "stored_timestamps (d\<lparr> contact_form_submissions :=
            fst (findOneAndUpdate (contact_form_submissions d) oid f) \<rparr>) = stored_timestamps d"
    for oid
    using findOneAndUpdate_timestamps[OF assms] by (simp add: stored_timestamps_def)
  then show ?thesis
    by (simp add: update_try_def Let_def split_beta split: option.splits sum.splits)
qed

lemma create_stored:
  assumes "fst (create env n e sj m d) = Inr (Some sub)"
  shows "submission_timestamp sub = clock_ms env div 1000
       \<and> contact_form_submissions (snd (create env n e sj m d)) =
           contact_form_submissions d @
             [(id' sub, \<lparr> name = n, email = e, subject = sj, message = m,
                         submission_timestamp = clock_ms env div 1000 \<rparr>)]"
  using assms
  by (auto simp: create_def create_try_def catch_return_def Let_def
        split: option.splits if_splits)

text \<open>
  Claim C9, as amended. The timestamp of a submission is set by \<^verbatim>\<open>create\<close> from the
  server clock (the clock reading in whole seconds), whatever the arguments: when
  \<^verbatim>\<open>create\<close> returns an instance, the document appended to the collection and the
  instance carry that reading. \<^verbatim>\<open>update(id, updateFields)\<close> leaves the stored
  timestamp of every submission unchanged, for every \<open>id\<close>, whenever \<open>updateFields\<close>
  has no \<open>submission_timestamp\<close> field.
\<close>

theorem C9_timestamp_kept_unless_given:
  "(fst (create env n e sj m d) = Inr (Some sub) \<longrightarrow>
      submission_timestamp sub = clock_ms env div 1000
      \<and> contact_form_submissions (snd (create env n e sj m d)) =
          contact_form_submissions d @
            [(id' sub, \<lparr> name = n, email = e, subject = sj, message = m,
                        submission_timestamp = clock_ms env div 1000 \<rparr>)])
   \<and> (set_submission_timestamp f = None \<longrightarrow>
      stored_timestamps (snd (update env' i f d')) = stored_timestamps d')"
  using create_stored update_try_timestamps by (simp add: update_def)

theorem C9_timestamp_kept_unless_given_witness:
  "fst (create store_ok ''Asha'' ''asha@example.com'' ''Hello'' ''A question'' fresh_database) =
     Inr (Some \<lparr> name = ''Asha'', email = ''asha@example.com'', subject = ''Hello'',
                 message = ''A question'', submission_timestamp = 1700000000,
                 id' = ''65f0c0ffee000000000000aa'' \<rparr>)
   \<and> set_submission_timestamp rename = None
   \<and> stored_timestamps (snd (update store_ok ''65F0C0FFEE00000000000001'' rename one_submission)) =
       [(''65f0c0ffee00000000000001'', 1699990000)]
   \<and> fst (update store_ok ''65F0C0FFEE00000000000001'' rename one_submission) =
       Inr (Some \<lparr> name = ''Asha R'', email = ''asha@example.com'', subject = ''Hello'',
                   message = ''A question'', submission_timestamp = 1699990000,
                   id' = ''65f0c0ffee00000000000001'' \<rparr>)"
proof -
  have a: "fst (create store_ok ''Asha'' ''asha@example.com'' ''Hello'' ''A question''
                  fresh_database) =
     Inr (Some \<lparr> name = ''Asha'', email = ''asha@example.com'', subject = ''Hello'',
                 message = ''A question'', submission_timestamp = 1700000000,
                 id' = ''65f0c0ffee000000000000aa'' \<rparr>)"
    by (simp add: create_def create_try_def catch_return_def store_ok_def Let_def)
  have b: "set_submission_timestamp rename = None"
    by (simp add: rename_def)
  have c: "stored_timestamps one_submission = [(''65f0c0ffee00000000000001'', 1699990000)]"
    by (simp add: stored_timestamps_def one_submission_def)
  have o: "ObjectId ''65F0C0FFEE00000000000001'' = Inr ''65f0c0ffee00000000000001''"
    by (simp add: ObjectId_def is_hex_def to_lower_hex_def)
  have u: "fst (update store_ok ''65F0C0FFEE00000000000001'' rename one_submission) =
       Inr (Some \<lparr> name = ''Asha R'', email = ''asha@example.com'', subject = ''Hello'',
                   message = ''A question'', submission_timestamp = 1699990000,
                   id' = ''65f0c0ffee00000000000001'' \<rparr>)"
    by (simp add: update_def update_try_def catch_return_def store_ok_def o one_submission_def
          rename_def fromDocument_def dollar_set_fields_def)
  from a b c u
    C9_timestamp_kept_unless_given[of store_ok "''Asha''" "''asha@example.com''" "''Hello''"
      "''A question''" fresh_database _ rename store_ok "''65F0C0FFEE00000000000001''"
      one_submission]
  show ?thesis
    by simp
qed

theorem C9_counterexample:
  "stored_timestamps one_submission = [(''65f0c0ffee00000000000001'', 1699990000)]
   \<and> stored_timestamps (snd (update store_ok ''65f0c0ffee00000000000001'' backdate one_submission)) =
       [(''65f0c0ffee00000000000001'', 0)]"
proof -
  have o: "ObjectId ''65f0c0ffee00000000000001'' = Inr ''65f0c0ffee00000000000001''"
    by (simp add: ObjectId_def is_hex_def to_lower_hex_def)
  show ?thesis
    by (simp add: stored_timestamps_def update_def update_try_def store_ok_def o
          one_submission_def backdate_def dollar_set_fields_def)
qed

lemma deleteOne_count: "snd (deleteOne c i) \<le> 1"
  by (induction c) simp_all

lemma deleteOne_length: "length (fst (deleteOne c i)) + snd (deleteOne c i) = length c"
  by (induction c) simp_all

lemma deleteOne_none:
  assumes "snd (deleteOne c i) \<noteq> 1"
  shows "fst (deleteOne c i) = c"
  using assms by (induction c) (simp_all split: if_splits)

text \<open>What the bodies of the four \<^verbatim>\<open>try\<close> blocks throw.\<close>

lemma create_try_throws:
  assumes "throws_in_try env"
  shows "\<exists>x. fst (create_try env n e sj m d) = Inl x"
  using assms by (auto simp: create_try_def throws_in_try_def Let_def split: option.splits)

lemma get_by_id_try_throws:
  assumes "throws_in_try env \<or> isl (ObjectId i)"
  shows "\<exists>x. fst (get_by_id_try env i d) = Inl x"
  using assms
  by (auto simp: get_by_id_try_def throws_in_try_def isl_def split: option.splits sum.splits)

lemma update_try_throws:
  assumes "throws_in_try env \<or> isl (ObjectId i)"
  shows "\<exists>x. fst (update_try env i f d) = Inl x"
  using assms
  by (auto simp: update_try_def throws_in_try_def isl_def split: option.splits sum.splits)

lemma delete_try_throws:
  assumes "throws_in_try env \<or> isl (ObjectId i)"
  shows "\<exists>x. fst (delete_try env i d) = Inl x"
  using assms
  by (auto simp: delete_try_def throws_in_try_def isl_def split: option.splits sum.splits)

lemma delete_try_unchanged_when_throws:
  assumes "fst (delete_try env i d) = Inl x"
  shows "snd (delete_try env i d) = d"
  using assms
  by (auto simp: delete_try_def Let_def split_beta split: option.splits sum.splits)

lemma delete_try_result:
  assumes "fst (delete_try env i d) = Inr b"
  shows "b \<longleftrightarrow> length (contact_form_submissions (snd (delete_try env i d))) + 1 =
                 length (contact_form_submissions d)"
    and "\<not> b \<Longrightarrow> snd (delete_try env i d) = d"
proof -
  from assms obtain oid where
    r: "b \<longleftrightarrow> snd (deleteOne (contact_form_submissions d) oid) = 1"
    and s: "snd (delete_try env i d) =
              d\<lparr> contact_form_submissions := fst (deleteOne (contact_form_submissions d) oid) \<rparr>"
    by (auto simp: delete_try_def Let_def split_beta split: option.splits sum.splits)
  show "b \<longleftrightarrow> length (contact_form_submissions (snd (delete_try env i d))) + 1 =
                 length (contact_form_submissions d)"
    using deleteOne_length[of "contact_form_submissions d" oid]
      deleteOne_count[of "contact_form_submissions d" oid]
    by (auto simp: r s)
  show "snd (delete_try env i d) = d" if "\<not> b"
    using that deleteOne_none[of "contact_form_submissions d" oid] by (simp add: r s)
qed

lemma delete_true_iff:
  "fst (delete env i d) = Inr True \<longleftrightarrow>
     length (contact_form_submissions (snd (delete env i d))) + 1 =
       length (contact_form_submissions d)"
proof (cases "fst (delete_try env i d)")
  case (Inl x)
  then show ?thesis
    using delete_try_unchanged_when_throws[OF Inl]
    by (simp add: delete_def catch_return_Inl)
next
  case (Inr b)
  then show ?thesis
    using delete_try_result(1)[OF Inr] by (simp add: delete_def catch_return_Inr)
qed

lemma delete_false_unchanged:
  assumes "fst (delete env i d) \<noteq> Inr True"
  shows "snd (delete env i d) = d"
proof (cases "fst (delete_try env i d)")
  case (Inl x)
  then show ?thesis
    using delete_try_unchanged_when_throws[OF Inl] by (simp add: delete_def)
next
  case (Inr b)
  with assms have "\<not> b"
    by (simp add: delete_def catch_return_Inr)
  then show ?thesis
    using delete_try_result(2)[OF Inr] by (simp add: delete_def)
qed

text \<open>
  Claim C10. For every input, every database and every answer of the datastore, the
  static methods \<^verbatim>\<open>create\<close>, \<^verbatim>\<open>get_by_id\<close> and \<^verbatim>\<open>update\<close> return (a value, never an
  error thrown to the caller), and return \<^verbatim>\<open>null\<close> whenever something throws inside
  them: \<^verbatim>\<open>getDb\<close>, the call on the collection, or \<^verbatim>\<open>new ObjectId(id)\<close> on a string
  that is no identifier. \<^verbatim>\<open>delete\<close> returns too, \<^verbatim>\<open>false\<close> whenever something throws;
  it returns \<^verbatim>\<open>true\<close> exactly when the collection has one document fewer than before,
  and when it does not return \<^verbatim>\<open>true\<close> the database is unchanged.
\<close>

theorem C10_static_methods_never_throw:
  "(\<exists>r. fst (create env n e sj m d) = Inr r)
   \<and> (throws_in_try env \<longrightarrow> fst (create env n e sj m d) = Inr None)
   \<and> (\<exists>r. fst (get_by_id env i d) = Inr r)
   \<and> (throws_in_try env \<or> isl (ObjectId i) \<longrightarrow> fst (get_by_id env i d) = Inr None)
   \<and> (\<exists>r. fst (update env i f d) = Inr r)
   \<and> (throws_in_try env \<or> isl (ObjectId i) \<longrightarrow> fst (update env i f d) = Inr None)
   \<and> (\<exists>b. fst (delete env i d) = Inr b)
   \<and> (throws_in_try env \<or> isl (ObjectId i) \<longrightarrow> fst (delete env i d) = Inr False)
   \<and> (fst (delete env i d) = Inr True \<longleftrightarrow>
        length (contact_form_submissions (snd (delete env i d))) + 1 =
          length (contact_form_submissions d))
   \<and> (fst (delete env i d) \<noteq> Inr True \<longrightarrow> snd (delete env i d) = d)"
proof -
  have 1: "throws_in_try env \<longrightarrow> fst (create env n e sj m d) = Inr None"
    using create_try_throws[of env n e sj m d] by (auto simp: create_def catch_return_Inl)
  have 2: "throws_in_try env \<or> isl (ObjectId i) \<longrightarrow> fst (get_by_id env i d) = Inr None"
    using get_by_id_try_throws[of env i d] by (auto simp: get_by_id_def catch_return_Inl)
  have 3: "throws_in_try env \<or> isl (ObjectId i) \<longrightarrow> fst (update env i f d) = Inr None"
    using update_try_throws[of env i f d] by (auto simp: update_def catch_return_Inl)
  have 4: "throws_in_try env \<or> isl (ObjectId i) \<longrightarrow> fst (delete env i d) = Inr False"
    using delete_try_throws[of env i d] by (auto simp: delete_def catch_return_Inl)
  have 5: "\<exists>r. fst (create env n e sj m d) = Inr r" "\<exists>r. fst (get_by_id env i d) = Inr r"
    "\<exists>r. fst (update env i f d) = Inr r" "\<exists>b. fst (delete env i d) = Inr b"
    unfolding create_def get_by_id_def update_def delete_def
    by (rule catch_return_never_throws)+
  from 1 2 3 4 5 delete_true_iff[of env i d] delete_false_unchanged[of env i d]
  show ?thesis
    by blast
qed

theorem C10_static_methods_never_throw_witness:
  "throws_in_try store_down
   \<and> isl (ObjectId ''not-an-id'')
   \<and> fst (create store_down ''Asha'' ''asha@example.com'' ''Hello'' ''A question'' one_submission)
       = Inr None
   \<and> fst (get_by_id store_ok ''not-an-id'' one_submission) = Inr None
   \<and> fst (update store_down ''65f0c0ffee00000000000001'' rename one_submission) = Inr None
   \<and> fst (delete store_down ''65f0c0ffee00000000000001'' one_submission) = Inr False
   \<and> snd (delete store_down ''65f0c0ffee00000000000001'' one_submission) = one_submission
   \<and> fst (delete store_ok ''65f0c0ffee00000000000001'' one_submission) = Inr True
   \<and> length (contact_form_submissions
        (snd (delete store_ok ''65f0c0ffee00000000000001'' one_submission))) + 1 =
       length (contact_form_submissions one_submission)"
proof -
  have a: "throws_in_try store_down"
    by (simp add: throws_in_try_def store_down_def store_ok_def)
  have b: "isl (ObjectId ''not-an-id'')"
    by (simp add: ObjectId_def)
  have o: "ObjectId ''65f0c0ffee00000000000001'' = Inr ''65f0c0ffee00000000000001''"
    by (simp add: ObjectId_def is_hex_def to_lower_hex_def)
  have t: "fst (delete store_ok ''65f0c0ffee00000000000001'' one_submission) = Inr True"
    by (simp add: delete_def delete_try_def catch_return_def store_ok_def o one_submission_def)
  have f: "fst (delete store_down ''65f0c0ffee00000000000001'' one_submission) \<noteq> Inr True"
    by (simp add: delete_def delete_try_def catch_return_def store_ok_def store_down_def o)
  from a b t f
    C10_static_methods_never_throw[of store_down "''Asha''" "''asha@example.com''" "''Hello''"
      "''A question''" one_submission "''65f0c0ffee00000000000001''" rename]
    C10_static_methods_never_throw[of store_ok "''Asha''" "''asha@example.com''" "''Hello''"
      "''A question''" one_submission "''not-an-id''" rename]
    C10_static_methods_never_throw[of store_ok "''Asha''" "''asha@example.com''" "''Hello''"
      "''A question''" one_submission "''65f0c0ffee00000000000001''" rename]
  show ?thesis
    by blast
qed

section \<open>One invocation run alone is the routine\<close>

lemma inv_run_Returned [simp]: "inv_run n env (Returned r, s) = (Returned r, s)"
  by (induction n) simp_all

lemma inv_run_add: "inv_run (m + n) env x = inv_run n env (inv_run m env x)"
  by (induction m arbitrary: x) simp_all

lemma run_transaction_steps:
  "inv_run (Suc (Suc 0)) env (Await_withTransaction, s) =
     (case run_transaction env s of
        (Inr u, s1) \<Rightarrow> (Returned (Inr ()), s1)
      | (Inl e, s1) \<Rightarrow> (outer_catch e, s1))"
  by (simp add: run_transaction_def Let_def split: prod.splits sum.splits option.splits)

lemma session_steps:
  "inv_run (Suc (Suc (Suc (Suc 0)))) env (Await_getClient, s) =
     (let s3 = log_call Call_getClient s
      in case getClient_throws env of
           Some e \<Rightarrow> (outer_catch e, s3)
         | None \<Rightarrow>
             (let s4 = log_call Call_startSession s3
              in case startSession_throws env of
                   Some e \<Rightarrow> (outer_catch e, s4)
                 | None \<Rightarrow>
                     (case run_transaction env s4 of
                        (Inr u, s1) \<Rightarrow> (Returned (Inr ()), s1)
                      | (Inl e, s1) \<Rightarrow> (outer_catch e, s1))))"
proof -
  have "inv_run (Suc (Suc (Suc (Suc 0)))) env (Await_getClient, s) =
          inv_run (Suc (Suc (Suc 0))) env (inv_step env Await_getClient s)"
    by simp
  also have "\<dots> =
     (let s3 = log_call Call_getClient s
      in case getClient_throws env of
           Some e \<Rightarrow> (outer_catch e, s3)
         | None \<Rightarrow> inv_run (Suc (Suc 0)) env (inv_step env Await_startSession s3))"
    by (simp add: Let_def outer_catch_def split: option.splits)
  also have "\<dots> =
     (let s3 = log_call Call_getClient s
      in case getClient_throws env of
           Some e \<Rightarrow> (outer_catch e, s3)
         | None \<Rightarrow>
             (let s4 = log_call Call_startSession s3
              in case startSession_throws env of
                   Some e \<Rightarrow> (outer_catch e, s4)
                 | None \<Rightarrow> inv_run (Suc (Suc 0)) env (Await_withTransaction, s4)))"
    by (simp add: Let_def outer_catch_def split: option.splits)
  finally show ?thesis
    by (simp only: run_transaction_steps)
qed

lemma try_block_steps:
  "inv_run (Suc (Suc (Suc (Suc (Suc 0))))) env (Await_updateOne_lock, s) =
     (case try_block env s of
        (Inr u, s1) \<Rightarrow> (Returned (Inr ()), s1)
      | (Inl e, s1) \<Rightarrow> (outer_catch e, s1))"
proof -
  let ?s1 = "log_call (Call_updateOne (lock_update env) True False) s"
  let ?result = "snd (updateOne (mock_data_execution (db ?s1)) seed_id (lock_update env) True)"
  let ?s2 = "write_op False (Write_updateOne seed_id (lock_update env) True) ?s1"
  have "inv_run (Suc (Suc (Suc (Suc (Suc 0))))) env (Await_updateOne_lock, s) =
          inv_run (Suc (Suc (Suc (Suc 0)))) env (inv_step env Await_updateOne_lock s)"
    by simp
  also have "\<dots> =
     (case updateOne_lock_throws env of
        Some e \<Rightarrow> (outer_catch e, ?s1)
      | None \<Rightarrow>
          if upsertedCount ?result = 0 then (Returned (Inr ()), ?s2)
          else inv_run (Suc (Suc (Suc (Suc 0)))) env (Await_getClient, ?s2))"
    by (simp add: Let_def outer_catch_def split: option.splits del: inv_run.simps(2))
  also have "\<dots> =
     (case try_block env s of
        (Inr u, s1) \<Rightarrow> (Returned (Inr ()), s1)
      | (Inl e, s1) \<Rightarrow> (outer_catch e, s1))"
    by (simp add: session_steps try_block_def Let_def
          split: option.splits del: inv_run.simps(2))
  finally show ?thesis .
qed

lemma populate_steps:
  "inv_run (Suc (Suc (Suc (Suc (Suc (Suc (Suc 0))))))) env (Start, s) =
     (case populate_with_mock_data env s of (r, s1) \<Rightarrow> (Returned r, s1))"
proof (cases "populationAttempted s")
  case True
  then show ?thesis
    by (simp add: populate_with_mock_data_def)
next
  case False
  let ?s1 = "log_call Call_getDb (s\<lparr> populationAttempted := True \<rparr>)"
  have "inv_run (Suc (Suc (Suc (Suc (Suc (Suc (Suc 0))))))) env (Start, s) =
          inv_run (Suc (Suc (Suc (Suc (Suc 0))))) env
            (inv_step env Await_getDb (s\<lparr> populationAttempted := True \<rparr>))"
    using False by simp
  also have "\<dots> =
     (case getDb_throws env of
        Some e \<Rightarrow> (Returned (Inl e), ?s1)
      | None \<Rightarrow> inv_run (Suc (Suc (Suc (Suc (Suc 0))))) env (Await_updateOne_lock, ?s1))"
    by (simp add: Let_def split: option.splits del: inv_run.simps(2))
  also have "\<dots> =
     (case populate_with_mock_data env s of (r, s1) \<Rightarrow> (Returned r, s1))"
    using False
    by (simp add: try_block_steps populate_with_mock_data_def Let_def outer_catch_def
          split: option.splits prod.splits sum.splits del: inv_run.simps(2))
  finally show ?thesis .
qed

section \<open>One step of an invocation\<close>

lemma view_simps [simp]:
  "populationAttempted (view \<sigma> p) = flags \<sigma> (pid p)"
  "db (view \<sigma> p) = shared_db \<sigma>"
  "pending (view \<sigma> p) = []"
  "calls (view \<sigma> p) = inv_calls p"
  by (simp_all add: view_def)

lemma returned_outer_catch [simp]: "returned (outer_catch e)"
  by (simp add: outer_catch_def)

lemma outer_catch_neq [simp]:
  "outer_catch e \<noteq> Start" "outer_catch e \<noteq> Await_getDb"
  "outer_catch e \<noteq> Await_updateOne_lock" "outer_catch e \<noteq> Await_getClient"
  "outer_catch e \<noteq> Await_startSession" "outer_catch e \<noteq> Await_withTransaction"
  "outer_catch e \<noteq> Await_updateOne_failed e'"
  by (simp_all add: outer_catch_def)

lemma present_updateOne:
  assumes "map_of c i \<noteq> None"
  shows "map_of (fst (updateOne c i u upsert)) i \<noteq> None"
  using assms by (auto simp: updateOne_def map_of_update_same)

lemma updateOne_no_upsert_absent:
  assumes "map_of c i = None"
  shows "fst (updateOne c i u False) = c"
  using assms by (simp add: updateOne_def)

lemma present_committed [simp]: "present (committed a d) \<longleftrightarrow> present d"
proof (cases "map_of (mock_data_execution d) seed_id")
  case None
  then show ?thesis
    by (simp add: present_def committed_def updateOne_no_upsert_absent)
next
  case (Some d')
  then show ?thesis
    using present_updateOne[of "mock_data_execution d" seed_id "completed_update a" False]
    by (simp add: present_def committed_def)
qed

lemma present_marked_failed [simp]: "present (marked_failed env e d) \<longleftrightarrow> present d"
proof (cases "map_of (mock_data_execution d) seed_id")
  case None
  then show ?thesis
    by (simp add: present_def marked_failed_def updateOne_no_upsert_absent)
next
  case (Some a)
  then show ?thesis
    using present_updateOne[of "mock_data_execution d" seed_id "failed_update env e" False]
    by (simp add: present_def marked_failed_def)
qed

lemma submissions_marked_failed [simp]:
  "contact_form_submissions (marked_failed env e d) = contact_form_submissions d"
  by (simp add: marked_failed_def)

lemma submissions_committed [simp]:
  "contact_form_submissions (committed a d) =
     insertMany (contact_form_submissions d) (new_id a) (mockSubmissions (now_batch a))"
  by (simp add: committed_def)

text \<open>The outcomes of one step, place by place.\<close>

lemma inv_step_Start:
  "inv_step env Start s =
     (if populationAttempted s then (Returned (Inr ()), s)
      else (Await_getDb, s\<lparr> populationAttempted := True \<rparr>))"
  by simp

lemma inv_step_lock_present:
  assumes "present (db s)" and "updateOne_lock_throws env = None"
  shows "inv_step env Await_updateOne_lock s =
           (Returned (Inr ()), log_call (Call_updateOne (lock_update env) True False) s)"
proof -
  from assms(1) obtain d where "map_of (mock_data_execution (db s)) seed_id = Some d"
    by (auto simp: present_def)
  then have "try_block env s =
           (case updateOne_lock_throws env of Some e \<Rightarrow> Inl e | None \<Rightarrow> Inr (),
            log_call (Call_updateOne (lock_update env) True False) s)"
    by (rule try_block_present)
  moreover have "updateOne (mock_data_execution (db s)) seed_id (lock_update env) True =
          (mock_data_execution (db s), \<lparr> matchedCount = 1, upsertedCount = 0 \<rparr>)"
    using \<open>map_of (mock_data_execution (db s)) seed_id = Some d\<close>
    by (rule updateOne_setOnInsert_only) (simp add: lock_update_def)
  ultimately show ?thesis
    using assms(2)
    by (simp add: Let_def write_op_def log_call_def)
qed

lemma inv_step_lock_absent:
  assumes "\<not> present (db s)" and "updateOne_lock_throws env = None"
  shows "inv_step env Await_updateOne_lock s =
           (Await_getClient,
            set_mock_data_execution
              (mock_data_execution (db s) @
                 [(seed_id, write_fields (dollar_setOnInsert (lock_update env)) [])])
              (log_call (Call_updateOne (lock_update env) True False) s))"
proof -
  from assms(1) have "map_of (mock_data_execution (db s)) seed_id = None"
    by (simp add: present_def)
  then have "updateOne (mock_data_execution (db s)) seed_id (lock_update env) True =
          (mock_data_execution (db s) @
             [(seed_id, write_fields (dollar_setOnInsert (lock_update env))
                 (write_fields (dollar_set (lock_update env)) []))],
           \<lparr> matchedCount = 0, upsertedCount = 1 \<rparr>)"
    by (rule updateOne_absent_upsert)
  moreover have "dollar_set (lock_update env) = []"
    by (simp add: lock_update_def)
  ultimately show ?thesis
    using assms(2) by (simp add: Let_def write_op_def set_mock_data_execution_def log_call_def)
qed

lemma inv_step_lock_throws:
  assumes "updateOne_lock_throws env = Some e"
  shows "inv_step env Await_updateOne_lock s =
           (outer_catch e, log_call (Call_updateOne (lock_update env) True False) s)"
  using assms by (simp add: Let_def)

lemma inv_step_transaction:
  "fst (inv_step env Await_withTransaction s) =
     (case transaction_error env of
        None \<Rightarrow> Returned (Inr ())
      | Some e \<Rightarrow> Await_updateOne_failed e)"
  "populationAttempted (snd (inv_step env Await_withTransaction s)) = populationAttempted s"
  "db (snd (inv_step env Await_withTransaction s)) =
     (case committed_attempt env of Some a \<Rightarrow> committed a (db s) | None \<Rightarrow> db s)"
  "calls (snd (inv_step env Await_withTransaction s)) =
     calls s @ Call_withTransaction #
       transaction_calls (first_attempt env) (later_attempts env) @
       (case transaction_error env of None \<Rightarrow> [Call_endSession] | Some e \<Rightarrow> [])"
  by (simp_all add: withTransaction_eq transaction_error_def committed_attempt_def
        split: sum.splits)

lemma inv_step_failed:
  "fst (inv_step env (Await_updateOne_failed e) s) = outer_catch e"
  "populationAttempted (snd (inv_step env (Await_updateOne_failed e) s)) = populationAttempted s"
  "db (snd (inv_step env (Await_updateOne_failed e) s)) =
     (case updateOne_failed_throws env of
        Some updateError \<Rightarrow> db s
      | None \<Rightarrow> marked_failed env e (db s))"
  "calls (snd (inv_step env (Await_updateOne_failed e) s)) =
     calls s @ [Call_updateOne (failed_update env e) False False, Call_endSession]"
  by (simp_all add: Let_def marked_failed_def write_op_def log_call_def
        split: option.splits)

lemma inv_step_cases [case_names skip enter getDb_throws getDb_returns lock_throws lock_found
    lock_inserted getClient_throws getClient_returns startSession_throws startSession_returns
    commit abort failed stay]:
  obtains
    "pc0 = Start" "populationAttempted s"
      "inv_step env pc0 s = (Returned (Inr ()), s)"
  | "pc0 = Start" "\<not> populationAttempted s"
      "inv_step env pc0 s = (Await_getDb, s\<lparr> populationAttempted := True \<rparr>)"
  | e where "pc0 = Await_getDb" "getDb_throws env = Some e"
      "inv_step env pc0 s = (Returned (Inl e), log_call Call_getDb s)"
  | "pc0 = Await_getDb" "getDb_throws env = None"
      "inv_step env pc0 s = (Await_updateOne_lock, log_call Call_getDb s)"
  | e where "pc0 = Await_updateOne_lock" "updateOne_lock_throws env = Some e"
      "inv_step env pc0 s = (outer_catch e, log_call (Call_updateOne (lock_update env) True False) s)"
  | "pc0 = Await_updateOne_lock" "updateOne_lock_throws env = None" "present (db s)"
      "inv_step env pc0 s =
         (Returned (Inr ()), log_call (Call_updateOne (lock_update env) True False) s)"
  | "pc0 = Await_updateOne_lock" "updateOne_lock_throws env = None" "\<not> present (db s)"
      "inv_step env pc0 s =
         (Await_getClient,
          set_mock_data_execution
            (mock_data_execution (db s) @
               [(seed_id, write_fields (dollar_setOnInsert (lock_update env)) [])])
            (log_call (Call_updateOne (lock_update env) True False) s))"
  | e where "pc0 = Await_getClient" "getClient_throws env = Some e"
      "inv_step env pc0 s = (outer_catch e, log_call Call_getClient s)"
  | "pc0 = Await_getClient" "getClient_throws env = None"
      "inv_step env pc0 s = (Await_startSession, log_call Call_getClient s)"
  | e where "pc0 = Await_startSession" "startSession_throws env = Some e"
      "inv_step env pc0 s = (outer_catch e, log_call Call_startSession s)"
  | "pc0 = Await_startSession" "startSession_throws env = None"
      "inv_step env pc0 s = (Await_withTransaction, log_call Call_startSession s)"
  | "pc0 = Await_withTransaction" "transaction_error env = None"
  | e where "pc0 = Await_withTransaction" "transaction_error env = Some e"
  | e where "pc0 = Await_updateOne_failed e"
  | r where "pc0 = Returned r" "inv_step env pc0 s = (Returned r, s)"
proof (cases pc0)
  case Start
  then show ?thesis
    using that(1,2) by (cases "populationAttempted s") simp_all
next
  case Await_getDb
  then show ?thesis
    using that(3,4) by (cases "getDb_throws env") (simp_all add: Let_def)
next
  case Await_updateOne_lock
  show ?thesis
  proof (cases "updateOne_lock_throws env")
    case None
    then show ?thesis
      using Await_updateOne_lock that(6,7) inv_step_lock_present[of s env]
        inv_step_lock_absent[of s env]
      by (cases "present (db s)") simp_all
  next
    case (Some e)
    then show ?thesis
      using Await_updateOne_lock that(5) inv_step_lock_throws[of env e s] by simp
  qed
next
  case Await_getClient
  then show ?thesis
    using that(8,9) by (cases "getClient_throws env") (simp_all add: Let_def)
next
  case Await_startSession
  then show ?thesis
    using that(10,11) by (cases "startSession_throws env") (simp_all add: Let_def)
next
  case Await_withTransaction
  then show ?thesis
    using that(12,13) by (cases "transaction_error env") simp_all
next
  case (Await_updateOne_failed e)
  then show ?thesis
    using that(14) by simp
next
  case (Returned r)
  then show ?thesis
    using that(15) by simp
qed

section \<open>What one step does to the invocation and to what is shared\<close>

lemma stepped_simps [simp]:
  "pid (stepped \<sigma> p) = pid p"
  "inv_env (stepped \<sigma> p) = inv_env p"
  "inv_pc (stepped \<sigma> p) = fst (after_step \<sigma> p)"
  "inv_calls (stepped \<sigma> p) = calls (snd (after_step \<sigma> p))"
  "lock_call (stepped \<sigma> p) = lock_call p"
  by (simp_all add: stepped_def lock_call_def)

lemma set_mock_data_execution_db:
  "db (set_mock_data_execution c s) = (db s)\<lparr> mock_data_execution := c \<rparr>"
  by (simp add: set_mock_data_execution_def)

lemma present_after_insert [simp]:
  "present (d\<lparr> mock_data_execution := c @ [(seed_id, r)] \<rparr>)"
  by (simp add: present_def map_add_def split: option.splits)

lemma transaction_calls_not_Nil [simp]: "transaction_calls a later \<noteq> []"
  by (cases later) (simp_all add: attempt_calls_def)

lemma transaction_calls_no_plain_update [simp]:
  "Call_updateOne u upsert False \<notin> set (transaction_calls a later)"
  by (induction later arbitrary: a) (simp_all add: attempt_calls_def split: option.splits)

lemma transaction_calls_inserts [simp]:
  "0 < batch_inserts (transaction_calls a later)"
  by (rule transaction_calls_positive)

text \<open>The flag is only ever set; an invocation that sets it has passed the check.\<close>

lemma step_flag:
  "flags \<sigma> (pid p) \<Longrightarrow> populationAttempted (snd (after_step \<sigma> p))"
  "populationAttempted (snd (after_step \<sigma> p)) \<Longrightarrow> \<not> flags \<sigma> (pid p) \<Longrightarrow> entered (stepped \<sigma> p)"
  "entered p \<Longrightarrow> local_inv (flags \<sigma> (pid p)) p \<Longrightarrow> entered (stepped \<sigma> p)"
proof -
  show "populationAttempted (snd (after_step \<sigma> p))" if "flags \<sigma> (pid p)"
    using that unfolding after_step_def
    by (cases rule: inv_step_cases[of "inv_pc p" "view \<sigma> p" "inv_env p"])
      (simp_all add: inv_step_transaction inv_step_failed del: inv_step.simps)
  show "entered (stepped \<sigma> p)"
    if "populationAttempted (snd (after_step \<sigma> p))" "\<not> flags \<sigma> (pid p)"
    using that unfolding after_step_def entered_def stepped_def
    by (cases rule: inv_step_cases[of "inv_pc p" "view \<sigma> p" "inv_env p"])
      (simp_all add: inv_step_transaction inv_step_failed del: inv_step.simps)
  show "entered (stepped \<sigma> p)" if "entered p" "local_inv (flags \<sigma> (pid p)) p"
    using that unfolding after_step_def entered_def stepped_def local_inv_def
    by (cases rule: inv_step_cases[of "inv_pc p" "view \<sigma> p" "inv_env p"])
      (simp_all add: inv_step_transaction inv_step_failed del: inv_step.simps)
qed

text \<open>The flag record, once there, stays; it appears exactly when an invocation inserts it.\<close>

lemma step_present:
  "present (shared_db \<sigma>) \<Longrightarrow> present (db (snd (after_step \<sigma> p)))"
  "acquired p \<Longrightarrow> local_inv (flags \<sigma> (pid p)) p \<Longrightarrow> acquired (stepped \<sigma> p)"
  "local_inv (flags \<sigma> (pid p)) p \<Longrightarrow>
     acquired (stepped \<sigma> p) \<and> \<not> acquired p \<longleftrightarrow>
     present (db (snd (after_step \<sigma> p))) \<and> \<not> present (shared_db \<sigma>)"
proof -
  show "present (db (snd (after_step \<sigma> p)))" if "present (shared_db \<sigma>)"
    using that unfolding after_step_def
    by (cases rule: inv_step_cases[of "inv_pc p" "view \<sigma> p" "inv_env p"])
      (simp_all add: inv_step_transaction inv_step_failed split: option.splits del: inv_step.simps)
  show "acquired (stepped \<sigma> p)" if "acquired p" "local_inv (flags \<sigma> (pid p)) p"
    using that unfolding after_step_def acquired_def stepped_def local_inv_def
    by (cases rule: inv_step_cases[of "inv_pc p" "view \<sigma> p" "inv_env p"])
      (simp_all add: inv_step_transaction inv_step_failed del: inv_step.simps)
  show "acquired (stepped \<sigma> p) \<and> \<not> acquired p \<longleftrightarrow>
     present (db (snd (after_step \<sigma> p))) \<and> \<not> present (shared_db \<sigma>)"
    if "local_inv (flags \<sigma> (pid p)) p"
    using that unfolding after_step_def acquired_def stepped_def local_inv_def
    by (cases rule: inv_step_cases[of "inv_pc p" "view \<sigma> p" "inv_env p"])
      (auto simp: inv_step_transaction inv_step_failed set_mock_data_execution_db lock_call_def
         split: option.splits simp del: inv_step.simps)
qed

lemma is_batch_insert_lock_call [simp]: "\<not> is_batch_insert (lock_call p)"
  by (simp add: lock_call_def)

lemma lock_call_neq [simp]:
  "lock_call p \<noteq> Call_getDb" "lock_call p \<noteq> Call_getClient"
  "Call_getDb \<noteq> lock_call p" "Call_getClient \<noteq> lock_call p"
  by (simp_all add: lock_call_def)

lemma calls_return_simps:
  assumes "calls_return env"
  shows "getDb_throws env = None" "updateOne_lock_throws env = None"
    "getClient_throws env = None" "startSession_throws env = None"
    "transaction_error env = None"
  using assms by (simp_all add: calls_return_def reaches_transaction_def)

lemma committed_attempt_cases:
  "(transaction_error env = None \<and> (\<exists>a. committed_attempt env = Some a)) \<or>
   (\<exists>e. transaction_error env = Some e \<and> committed_attempt env = None)"
  by (simp add: transaction_error_def committed_attempt_def split: sum.splits)

text \<open>The relation between place and call log is kept by the step.\<close>

lemma step_local_inv:
  assumes "local_inv (flags \<sigma> (pid p)) p"
  shows "local_inv (populationAttempted (snd (after_step \<sigma> p))) (stepped \<sigma> p)"
proof (cases rule: inv_step_cases[of "inv_pc p" "view \<sigma> p" "inv_env p"])
  case commit
  then show ?thesis
    using assms
    by (auto simp: local_inv_def inv_step_transaction lock_call_def
          after_step_def stepped_def split: option.splits simp del: inv_step.simps)
next
  case (abort e)
  then show ?thesis
    using assms
    by (auto simp: local_inv_def inv_step_transaction lock_call_def
          after_step_def stepped_def simp del: inv_step.simps)
next
  case (failed e)
  then show ?thesis
    using assms
    by (auto simp: local_inv_def inv_step_failed outer_catch_def
          after_step_def stepped_def simp del: inv_step.simps)
qed (use assms in \<open>auto simp: local_inv_def outer_catch_def lock_call_def calls_return_def
       reaches_transaction_def after_step_def stepped_def simp del: inv_step.simps\<close>)

lemma local_inv_flag_mono:
  assumes "local_inv f q" and "f \<longrightarrow> f'"
  shows "local_inv f' q"
  using assms by (auto simp: local_inv_def split: pc.splits)

lemma inserted_acquired:
  assumes "local_inv f p" and "inserted p"
  shows "acquired p"
  using assms by (auto simp: local_inv_def inserted_def acquired_def split: pc.splits)

text \<open>The submissions collection changes only when a transaction commits.\<close>

lemma step_store:
  assumes "local_inv (flags \<sigma> (pid p)) p"
  shows "committed_by p \<Longrightarrow>
           committed_by (stepped \<sigma> p) \<and>
           contact_form_submissions (db (snd (after_step \<sigma> p))) =
             contact_form_submissions (shared_db \<sigma>)"
    and "\<not> committed_by (stepped \<sigma> p) \<Longrightarrow>
           contact_form_submissions (db (snd (after_step \<sigma> p))) =
             contact_form_submissions (shared_db \<sigma>)"
    and "committed_by (stepped \<sigma> p) \<Longrightarrow> \<not> committed_by p \<Longrightarrow>
           acquired p \<and>
           contact_form_submissions (db (snd (after_step \<sigma> p))) =
             contact_form_submissions (shared_db \<sigma>) @ batch_of p"
proof -
  show "committed_by (stepped \<sigma> p) \<and>
           contact_form_submissions (db (snd (after_step \<sigma> p))) =
             contact_form_submissions (shared_db \<sigma>)" if "committed_by p"
    using that assms committed_attempt_cases[of "inv_env p"]
    unfolding after_step_def stepped_def committed_by_def inserted_def
    by (cases rule: inv_step_cases[of "inv_pc p" "view \<sigma> p" "inv_env p"])
      (auto simp: local_inv_def inv_step_transaction inv_step_failed
         set_mock_data_execution_db
         split: option.splits simp del: inv_step.simps)
  show "contact_form_submissions (db (snd (after_step \<sigma> p))) =
             contact_form_submissions (shared_db \<sigma>)" if "\<not> committed_by (stepped \<sigma> p)"
    using that assms committed_attempt_cases[of "inv_env p"]
    unfolding after_step_def stepped_def committed_by_def inserted_def
    by (cases rule: inv_step_cases[of "inv_pc p" "view \<sigma> p" "inv_env p"])
      (auto simp: local_inv_def inv_step_transaction inv_step_failed
         set_mock_data_execution_db
         split: option.splits simp del: inv_step.simps)
  show "acquired p \<and>
           contact_form_submissions (db (snd (after_step \<sigma> p))) =
             contact_form_submissions (shared_db \<sigma>) @ batch_of p"
    if "committed_by (stepped \<sigma> p)" "\<not> committed_by p"
    using that assms committed_attempt_cases[of "inv_env p"]
    unfolding after_step_def stepped_def committed_by_def inserted_def
      acquired_def
    by (cases rule: inv_step_cases[of "inv_pc p" "view \<sigma> p" "inv_env p"])
      (auto simp: local_inv_def inv_step_transaction inv_step_failed
         set_mock_data_execution_db lock_call_def batch_of_def one_batch_def insertMany_def
         split: option.splits simp del: inv_step.simps)
qed

text \<open>After the conditional insert has returned, the flag record is there.\<close>

lemma step_lock_call:
  assumes "local_inv (flags \<sigma> (pid p)) p"
    and "lock_call p \<in> set (inv_calls (stepped \<sigma> p))"
    and "updateOne_lock_throws (inv_env p) = None"
  shows "lock_call p \<in> set (inv_calls p) \<or> present (db (snd (after_step \<sigma> p)))"
  using assms unfolding after_step_def stepped_def
  by (cases rule: inv_step_cases[of "inv_pc p" "view \<sigma> p" "inv_env p"])
    (auto simp: local_inv_def inv_step_transaction inv_step_failed
       set_mock_data_execution_db lock_call_def split: option.splits if_splits
       simp del: inv_step.simps)

section \<open>The invariant of the concurrent system\<close>

lemma sys_invI:
  assumes "\<And>i. i < length (invocations \<sigma>) \<Longrightarrow>
             local_inv (flags \<sigma> (pid (invocations \<sigma> ! i))) (invocations \<sigma> ! i)"
    and "present (shared_db \<sigma>) \<longleftrightarrow> (\<exists>i<length (invocations \<sigma>). acquired (invocations \<sigma> ! i))"
    and "\<And>i j. i < length (invocations \<sigma>) \<Longrightarrow> j < length (invocations \<sigma>) \<Longrightarrow>
             acquired (invocations \<sigma> ! i) \<Longrightarrow> acquired (invocations \<sigma> ! j) \<Longrightarrow> i = j"
    and "(\<forall>i<length (invocations \<sigma>). \<not> committed_by (invocations \<sigma> ! i)) \<Longrightarrow>
             contact_form_submissions (shared_db \<sigma>) = []"
    and "\<And>i. i < length (invocations \<sigma>) \<Longrightarrow> committed_by (invocations \<sigma> ! i) \<Longrightarrow>
             contact_form_submissions (shared_db \<sigma>) = batch_of (invocations \<sigma> ! i)"
    and "\<And>i. i < length (invocations \<sigma>) \<Longrightarrow> flags \<sigma> (pid (invocations \<sigma> ! i)) \<Longrightarrow>
             \<exists>j<length (invocations \<sigma>).
               pid (invocations \<sigma> ! j) = pid (invocations \<sigma> ! i) \<and> entered (invocations \<sigma> ! j)"
    and "\<And>i. i < length (invocations \<sigma>) \<Longrightarrow>
             lock_call (invocations \<sigma> ! i) \<in> set (inv_calls (invocations \<sigma> ! i)) \<Longrightarrow>
             updateOne_lock_throws (inv_env (invocations \<sigma> ! i)) = None \<Longrightarrow>
             present (shared_db \<sigma>)"
  shows "sys_inv \<sigma>"
  unfolding sys_inv_def Let_def using assms by blast

lemma sys_invD:
  assumes "sys_inv \<sigma>"
  shows "\<And>i. i < length (invocations \<sigma>) \<Longrightarrow>
             local_inv (flags \<sigma> (pid (invocations \<sigma> ! i))) (invocations \<sigma> ! i)"
    and "present (shared_db \<sigma>) \<longleftrightarrow> (\<exists>i<length (invocations \<sigma>). acquired (invocations \<sigma> ! i))"
    and "\<And>i j. i < length (invocations \<sigma>) \<Longrightarrow> j < length (invocations \<sigma>) \<Longrightarrow>
             acquired (invocations \<sigma> ! i) \<Longrightarrow> acquired (invocations \<sigma> ! j) \<Longrightarrow> i = j"
    and "(\<forall>i<length (invocations \<sigma>). \<not> committed_by (invocations \<sigma> ! i)) \<Longrightarrow>
             contact_form_submissions (shared_db \<sigma>) = []"
    and "\<And>i. i < length (invocations \<sigma>) \<Longrightarrow> committed_by (invocations \<sigma> ! i) \<Longrightarrow>
             contact_form_submissions (shared_db \<sigma>) = batch_of (invocations \<sigma> ! i)"
    and "\<And>i. i < length (invocations \<sigma>) \<Longrightarrow> flags \<sigma> (pid (invocations \<sigma> ! i)) \<Longrightarrow>
             \<exists>j<length (invocations \<sigma>).
               pid (invocations \<sigma> ! j) = pid (invocations \<sigma> ! i) \<and> entered (invocations \<sigma> ! j)"
    and "\<And>i. i < length (invocations \<sigma>) \<Longrightarrow>
             lock_call (invocations \<sigma> ! i) \<in> set (inv_calls (invocations \<sigma> ! i)) \<Longrightarrow>
             updateOne_lock_throws (inv_env (invocations \<sigma> ! i)) = None \<Longrightarrow>
             present (shared_db \<sigma>)"
  using assms unfolding sys_inv_def Let_def by blast+

lemma sys_inv_init: "sys_inv (init ps)"
proof (rule sys_invI)
  show "present (shared_db (init ps)) \<longleftrightarrow>
          (\<exists>i<length (invocations (init ps)). acquired (invocations (init ps) ! i))"
    by (auto simp: init_def present_def fresh_database_def acquired_def split_beta)
qed (auto simp: init_def local_inv_def fresh_database_def committed_by_def inserted_def
       lock_call_def acquired_def split_beta)

lemma sys_step_simps:
  assumes "k < length (invocations \<sigma>)"
  shows "invocations (sys_step k \<sigma>) =
           (invocations \<sigma>)[k := stepped \<sigma> (invocations \<sigma> ! k)]"
    and "shared_db (sys_step k \<sigma>) = db (snd (after_step \<sigma> (invocations \<sigma> ! k)))"
    and "flags (sys_step k \<sigma>) =
           (flags \<sigma>)(pid (invocations \<sigma> ! k) :=
              populationAttempted (snd (after_step \<sigma> (invocations \<sigma> ! k))))"
  using assms by (simp_all add: sys_step_def Let_def)

lemma sys_step_length [simp]: "length (invocations (sys_step k \<sigma>)) = length (invocations \<sigma>)"
  by (simp add: sys_step_def Let_def)

lemma sys_step_out_of_range:
  assumes "\<not> k < length (invocations \<sigma>)"
  shows "sys_step k \<sigma> = \<sigma>"
  using assms by (simp add: sys_step_def)

lemma sys_inv_step:
  assumes inv: "sys_inv \<sigma>"
  shows "sys_inv (sys_step k \<sigma>)"
proof (cases "k < length (invocations \<sigma>)")
  case False
  then show ?thesis
    using inv by (simp add: sys_step_out_of_range)
next
  case k: True
  define ps where "ps = invocations \<sigma>"
  define n where "n = length ps"
  define p where "p = ps ! k"
  define p' where "p' = stepped \<sigma> p"
  define d where "d = shared_db \<sigma>"
  define d' where "d' = db (snd (after_step \<sigma> p))"
  define f' where "f' = populationAttempted (snd (after_step \<sigma> p))"
  define \<sigma>' where "\<sigma>' = sys_step k \<sigma>"
  have kn: "k < n"
    using k by (simp add: n_def ps_def)
  have ps': "invocations \<sigma>' = ps[k := p']"
    and db': "shared_db \<sigma>' = d'"
    and fl': "flags \<sigma>' = (flags \<sigma>)(pid p := f')"
    using sys_step_simps[OF k]
    by (simp_all add: \<sigma>'_def ps_def p_def p'_def d'_def f'_def)
  have len: "length (invocations \<sigma>') = n"
    by (simp add: \<sigma>'_def n_def ps_def)
  have nth: "invocations \<sigma>' ! i = (if i = k then p' else ps ! i)" if "i < n" for i
    using that by (simp add: ps' n_def nth_list_update)
  have pid': "pid p' = pid p" and env': "inv_env p' = inv_env p"
    and lc': "lock_call p' = lock_call p"
    by (simp_all add: p'_def)
  note I = sys_invD[OF inv, folded ps_def n_def d_def]
  have Lp: "local_inv (flags \<sigma> (pid p)) p"
    using I(1)[OF kn] by (simp add: p_def)
  have mono: "flags \<sigma> (pid p) \<longrightarrow> f'"
    using step_flag(1)[of \<sigma> p] by (simp add: f'_def)
  have Lp': "local_inv f' p'"
    using step_local_inv[OF Lp] by (simp add: f'_def p'_def)
  have pres: "present d \<Longrightarrow> present d'"
    using step_present(1)[of \<sigma> p] by (simp add: d_def d'_def)
  have acq_keep: "acquired p \<Longrightarrow> acquired p'"
    using step_present(2)[OF _ Lp] by (simp add: p'_def)
  have acq_new: "acquired p' \<and> \<not> acquired p \<longleftrightarrow> present d' \<and> \<not> present d"
    using step_present(3)[OF Lp] by (simp add: p'_def d_def d'_def)
  have com_keep: "committed_by p \<Longrightarrow>
      committed_by p' \<and> contact_form_submissions d' = contact_form_submissions d"
    using step_store(1)[OF Lp] by (simp add: p'_def d_def d'_def)
  have com_none: "\<not> committed_by p' \<Longrightarrow> contact_form_submissions d' = contact_form_submissions d"
    using step_store(2)[OF Lp] by (simp add: p'_def d_def d'_def)
  have com_new: "committed_by p' \<Longrightarrow> \<not> committed_by p \<Longrightarrow>
      acquired p \<and> contact_form_submissions d' = contact_form_submissions d @ batch_of p"
    using step_store(3)[OF Lp] by (simp add: p'_def d_def d'_def)
  have com_acq: "acquired (ps ! i)" if "i < n" "committed_by (ps ! i)" for i
    using inserted_acquired[OF I(1)[OF that(1)]] that(2) by (simp add: committed_by_def)
  have only_p: "\<not> committed_by (ps ! i)" if "i < n" "i \<noteq> k" "acquired p" for i
    using com_acq[OF that(1)] I(3)[OF that(1) kn] that(2,3) by (auto simp: p_def)

  show ?thesis
    unfolding \<sigma>'_def[symmetric]
  proof (rule sys_invI, unfold len db')
    fix i assume i: "i < n"
    show "local_inv (flags \<sigma>' (pid (invocations \<sigma>' ! i))) (invocations \<sigma>' ! i)"
    proof (cases "i = k")
      case True
      then show ?thesis
        using Lp' by (simp add: nth[OF kn] fl' pid')
    next
      case False
      have "local_inv (flags \<sigma> (pid (ps ! i))) (ps ! i)"
        using I(1)[OF i] .
      then have "local_inv (flags \<sigma>' (pid (ps ! i))) (ps ! i)"
        by (rule local_inv_flag_mono) (use mono in \<open>simp add: fl'\<close>)
      with False show ?thesis
        by (simp add: nth[OF i])
    qed
  next
    show "present d' \<longleftrightarrow> (\<exists>i<n. acquired (invocations \<sigma>' ! i))"
    proof
      assume pd': "present d'"
      show "\<exists>i<n. acquired (invocations \<sigma>' ! i)"
      proof (cases "present d")
        case True
        then obtain i where i: "i < n" "acquired (ps ! i)"
          using I(2) by blast
        then have "acquired (invocations \<sigma>' ! i)"
          using acq_keep by (cases "i = k") (simp_all add: nth p_def)
        with i(1) show ?thesis
          by blast
      next
        case False
        with pd' acq_new have "acquired p'"
          by blast
        then have "acquired (invocations \<sigma>' ! k)"
          by (simp add: nth[OF kn])
        with kn show ?thesis
          by blast
      qed
    next
      assume "\<exists>i<n. acquired (invocations \<sigma>' ! i)"
      then obtain i where i: "i < n" "acquired (invocations \<sigma>' ! i)"
        by blast
      show "present d'"
      proof (cases "i = k")
        case True
        with i have "acquired p'"
          by (simp add: nth)
        then show ?thesis
          using acq_new I(2) kn pres by (cases "acquired p") (auto simp: p_def)
      next
        case False
        with i have "acquired (ps ! i)"
          by (simp add: nth)
        with i(1) I(2) have "present d"
          by blast
        then show ?thesis
          by (rule pres)
      qed
    qed
  next
    fix i j assume i: "i < n" and j: "j < n"
      and ai: "acquired (invocations \<sigma>' ! i)" and aj: "acquired (invocations \<sigma>' ! j)"
    have other: False
      if a: "a < n" "a \<noteq> k" "acquired (ps ! a)" and "acquired p'" for a
    proof (cases "acquired p")
      case True
      with I(3)[OF a(1) kn a(3)] a(2) show False
        by (simp add: p_def)
    next
      case False
      with \<open>acquired p'\<close> acq_new have "\<not> present d"
        by blast
      with I(2) a(1,3) show False
        by blast
    qed
    show "i = j"
    proof (cases "i = k"; cases "j = k")
      assume "i \<noteq> k" "j \<noteq> k"
      with ai aj i j show ?thesis
        using I(3)[OF i j] by (simp add: nth)
    next
      assume "i = k" "j \<noteq> k"
      with ai aj i j other[of j] show ?thesis
        by (simp add: nth)
    next
      assume "i \<noteq> k" "j = k"
      with ai aj i j other[of i] show ?thesis
        by (simp add: nth)
    qed simp
  next
    assume none: "\<forall>i<n. \<not> committed_by (invocations \<sigma>' ! i)"
    then have np': "\<not> committed_by p'"
      using kn by (auto simp: nth)
    then have "\<not> committed_by p"
      using com_keep by blast
    moreover have "\<not> committed_by (ps ! i)" if "i < n" "i \<noteq> k" for i
      using none that by (auto simp: nth)
    ultimately have "\<forall>i<n. \<not> committed_by (ps ! i)"
      by (auto simp: p_def)
    then have "contact_form_submissions d = []"
      by (rule I(4))
    with com_none[OF np'] show "contact_form_submissions d' = []"
      by simp
  next
    fix i assume i: "i < n" and c: "committed_by (invocations \<sigma>' ! i)"
    have bo: "batch_of p' = batch_of p"
      by (simp add: batch_of_def env')
    show "contact_form_submissions d' = batch_of (invocations \<sigma>' ! i)"
    proof (cases "i = k")
      case True
      with c i have cp': "committed_by p'"
        by (simp add: nth)
      show ?thesis
      proof (cases "committed_by p")
        case True
        then have "contact_form_submissions d = batch_of p"
          using I(5)[OF kn] by (simp add: p_def)
        with com_keep[OF True] \<open>i = k\<close> i show ?thesis
          by (simp add: nth bo)
      next
        case False
        from com_new[OF cp' False] have ap: "acquired p"
          and st: "contact_form_submissions d' = contact_form_submissions d @ batch_of p"
          by simp_all
        have "\<forall>a<n. \<not> committed_by (ps ! a)"
          using only_p[OF _ _ ap] False by (auto simp: p_def)
        then have "contact_form_submissions d = []"
          by (rule I(4))
        with st \<open>i = k\<close> i show ?thesis
          by (simp add: nth bo)
      qed
    next
      case False
      with c i have cq: "committed_by (ps ! i)"
        by (simp add: nth)
      then have q: "contact_form_submissions d = batch_of (ps ! i)"
        using I(5)[OF i] by simp
      have "contact_form_submissions d' = contact_form_submissions d"
      proof (cases "committed_by p'")
        case False
        then show ?thesis
          by (rule com_none)
      next
        case True
        show ?thesis
        proof (cases "committed_by p")
          case True
          then show ?thesis
            using com_keep by simp
        next
          case np: False
          from com_new[OF True np] have "acquired p"
            by simp
          with only_p[OF i False] cq show ?thesis
            by simp
        qed
      qed
      with q False i show ?thesis
        by (simp add: nth)
    qed
  next
    fix i assume i: "i < n" and fl: "flags \<sigma>' (pid (invocations \<sigma>' ! i))"
    have pidi: "pid (invocations \<sigma>' ! i) = pid (ps ! i)"
      using i by (cases "i = k") (simp_all add: nth pid' p_def)
    have keep: "\<exists>j<n. pid (invocations \<sigma>' ! j) = q \<and> entered (invocations \<sigma>' ! j)"
      if "a < n" "pid (ps ! a) = q" "entered (ps ! a)" for a q
    proof (cases "a = k")
      case True
      with that have "entered p" "pid p = q"
        by (simp_all add: p_def)
      then have "entered p'"
        using step_flag(3)[OF _ Lp] by (simp add: p'_def)
      with \<open>pid p = q\<close> kn show ?thesis
        by (auto simp: nth pid' intro!: exI[of _ k])
    next
      case False
      with that show ?thesis
        by (auto simp: nth intro!: exI[of _ a])
    qed
    show "\<exists>j<n. pid (invocations \<sigma>' ! j) = pid (invocations \<sigma>' ! i) \<and>
            entered (invocations \<sigma>' ! j)"
    proof (cases "flags \<sigma> (pid (ps ! i))")
      case True
      from I(6)[OF i True] obtain a where "a < n" "pid (ps ! a) = pid (ps ! i)" "entered (ps ! a)"
        by blast
      then show ?thesis
        unfolding pidi by (rule keep)
    next
      case False
      with fl have same: "pid (ps ! i) = pid p" and "f'"
        by (auto simp: fl' pidi split: if_splits)
      with False have "entered p'"
        using step_flag(2)[of \<sigma> p] by (simp add: f'_def p'_def)
      with same kn show ?thesis
        unfolding pidi by (auto simp: nth pid' intro!: exI[of _ k])
    qed
  next
    fix i assume i: "i < n"
      and lc: "lock_call (invocations \<sigma>' ! i) \<in> set (inv_calls (invocations \<sigma>' ! i))"
      and ok: "updateOne_lock_throws (inv_env (invocations \<sigma>' ! i)) = None"
    show "present d'"
    proof (cases "i = k")
      case True
      with lc ok i have "lock_call p \<in> set (inv_calls (stepped \<sigma> p))"
        "updateOne_lock_throws (inv_env p) = None"
        by (simp_all add: nth lc' env' p'_def)
      from step_lock_call[OF Lp this]
      have "lock_call p \<in> set (inv_calls p) \<or> present d'"
        by (simp add: d'_def)
      then show ?thesis
        using I(7)[OF kn] \<open>updateOne_lock_throws (inv_env p) = None\<close> pres
        by (auto simp: p_def)
    next
      case False
      with lc ok i have "present d"
        using I(7)[OF i] by (simp add: nth)
      then show ?thesis
        by (rule pres)
    qed
  qed
qed

lemma sys_inv_run:
  assumes "sys_inv \<sigma>"
  shows "sys_inv (run ks \<sigma>)"
  using assms by (induction ks arbitrary: \<sigma>) (simp_all add: sys_inv_step)

lemma sys_inv_reached: "sys_inv (run ks (init ps))"
  using sys_inv_init by (rule sys_inv_run)

section \<open>What the invariant gives\<close>

lemma filter_at_most_one:
  assumes "\<And>i j. i < length xs \<Longrightarrow> j < length xs \<Longrightarrow> P (xs ! i) \<Longrightarrow> P (xs ! j) \<Longrightarrow> i = j"
  shows "length (filter P xs) \<le> 1"
  using assms
proof (induction xs)
  case Nil
  then show ?case by simp
next
  case (Cons x xs)
  have tl: "length (filter P xs) \<le> 1"
  proof (rule Cons.IH)
    fix i j assume "i < length xs" "j < length xs" "P (xs ! i)" "P (xs ! j)"
    then show "i = j"
      using Cons.prems[of "Suc i" "Suc j"] by simp
  qed
  show ?case
  proof (cases "P x")
    case False
    with tl show ?thesis by simp
  next
    case True
    have "\<not> P y" if "y \<in> set xs" for y
    proof
      assume "P y"
      from that obtain i where "i < length xs" "xs ! i = y"
        by (auto simp: in_set_conv_nth)
      with Cons.prems[of 0 "Suc i"] True \<open>P y\<close> show False
        by simp
    qed
    then have "filter P xs = []"
      by (simp add: filter_empty_conv)
    with True show ?thesis by simp
  qed
qed

lemma filter_the_one:
  assumes "length (filter P xs) \<le> 1" and "i < length xs" and "P (xs ! i)"
  shows "filter P xs = [xs ! i]"
proof -
  have "xs ! i \<in> set (filter P xs)"
    using assms(2,3) by simp
  moreover obtain y where "filter P xs = [y]"
    using assms(1) calculation by (cases "filter P xs") (auto simp: Suc_le_eq)
  ultimately show ?thesis
    by simp
qed

lemma one_batch_docs:
  "map snd (one_batch a) = mockSubmissions (now_batch a)"
  "length (one_batch a) = 10"
  by (simp_all add: one_batch_def insertMany_def length_mockSubmissions)

lemma batch_of_committed:
  assumes "committed_attempt (inv_env p) = Some a"
  shows "batch_of p = one_batch a"
  using assms by (simp add: batch_of_def)

lemma committed_by_attempt:
  assumes "committed_by p"
  shows "\<exists>a. committed_attempt (inv_env p) = Some a"
  using assms committed_attempt_cases[of "inv_env p"] by (auto simp: committed_by_def)

text \<open>At most one invocation makes the batch insert; the collection is empty or one batch.\<close>

lemma sys_inv_inserters:
  assumes "sys_inv \<sigma>"
  shows "length (inserters \<sigma>) \<le> 1"
    and "contact_form_submissions (shared_db \<sigma>) = [] \<or>
         (\<exists>p. inserters \<sigma> = [p] \<and> contact_form_submissions (shared_db \<sigma>) = batch_of p)"
    and "\<And>i. i < length (invocations \<sigma>) \<Longrightarrow> committed_by (invocations \<sigma> ! i) \<Longrightarrow>
           inserters \<sigma> = [invocations \<sigma> ! i] \<and>
           contact_form_submissions (shared_db \<sigma>) = batch_of (invocations \<sigma> ! i)"
proof -
  note I = sys_invD[OF assms]
  have acq: "acquired (invocations \<sigma> ! i)"
    if "i < length (invocations \<sigma>)" "inserted (invocations \<sigma> ! i)" for i
    using inserted_acquired[OF I(1)[OF that(1)] that(2)] .
  show le: "length (inserters \<sigma>) \<le> 1"
    unfolding inserters_def inserted_def[symmetric]
    by (rule filter_at_most_one) (use acq I(3) in blast)
  show one: "inserters \<sigma> = [invocations \<sigma> ! i] \<and>
           contact_form_submissions (shared_db \<sigma>) = batch_of (invocations \<sigma> ! i)"
    if "i < length (invocations \<sigma>)" "committed_by (invocations \<sigma> ! i)" for i
  proof -
    have "inserted (invocations \<sigma> ! i)"
      using that(2) by (simp add: committed_by_def)
    then have "inserters \<sigma> = [invocations \<sigma> ! i]"
      using le that(1) unfolding inserters_def inserted_def[symmetric]
      by (intro filter_the_one)
    with I(5)[OF that] show ?thesis
      by simp
  qed
  show "contact_form_submissions (shared_db \<sigma>) = [] \<or>
         (\<exists>p. inserters \<sigma> = [p] \<and> contact_form_submissions (shared_db \<sigma>) = batch_of p)"
    using I(4) one by blast
qed

text \<open>The invocations keep their processes and surroundings.\<close>

lemma sys_step_envs [simp]:
  "map inv_env (invocations (sys_step k \<sigma>)) = map inv_env (invocations \<sigma>)"
proof (cases "k < length (invocations \<sigma>)")
  case True
  then show ?thesis
    by (simp add: sys_step_simps(1)[OF True] map_update list_update_same_conv)
next
  case False
  then show ?thesis
    by (simp add: sys_step_out_of_range)
qed

lemma run_envs [simp]: "map inv_env (invocations (run ks \<sigma>)) = map inv_env (invocations \<sigma>)"
  by (induction ks arbitrary: \<sigma>) simp_all

lemma init_envs [simp]: "map inv_env (invocations (init ps)) = map snd ps"
  by (simp add: init_def split_beta)

lemma run_length [simp]: "length (invocations (run ks \<sigma>)) = length (invocations \<sigma>)"
  by (induction ks arbitrary: \<sigma>) simp_all

lemma init_length [simp]: "length (invocations (init ps)) = length ps"
  by (simp add: init_def)

text \<open>
  When the calls return and every invocation has returned, one of them has committed
  its transaction.
\<close>

lemma returned_acquired_committed:
  assumes "local_inv f p" and "returned (inv_pc p)" and "acquired p"
    and "calls_return (inv_env p)"
  shows "committed_by p"
  using assms
  by (auto simp: local_inv_def acquired_def committed_by_def inserted_def
        calls_return_simps split: pc.splits)

lemma returned_entered_lock_done:
  assumes "local_inv f p" and "returned (inv_pc p)" and "entered p"
    and "calls_return (inv_env p)"
  shows "acquired p \<or> lock_call p \<in> set (inv_calls p)"
  using assms
  by (auto simp: local_inv_def acquired_def entered_def split: pc.splits)

lemma returned_skipped_flag:
  assumes "local_inv f p" and "returned (inv_pc p)" and "\<not> entered p"
  shows "f"
  using assms
  by (auto simp: local_inv_def entered_def split: pc.splits)

lemma sys_inv_all_returned:
  assumes inv: "sys_inv \<sigma>"
    and ne: "invocations \<sigma> \<noteq> []"
    and ok: "list_all calls_return (map inv_env (invocations \<sigma>))"
    and ret: "all_returned \<sigma>"
  shows "\<exists>p a. inserters \<sigma> = [p] \<and> committed_attempt (inv_env p) = Some a \<and>
             contact_form_submissions (shared_db \<sigma>) = one_batch a"
proof -
  let ?ps = "invocations \<sigma>"
  note I = sys_invD[OF inv]
  have okn: "calls_return (inv_env (?ps ! i))" if "i < length ?ps" for i
    using ok that by (simp add: list_all_length)
  have retn: "returned (inv_pc (?ps ! i))" if "i < length ?ps" for i
    using ret that by (simp add: all_returned_def list_all_length)
  have ent: "\<exists>j<length ?ps. entered (?ps ! j)"
  proof (cases "entered (?ps ! 0)")
    case True
    with ne show ?thesis
      by (auto intro!: exI[of _ 0])
  next
    case False
    have 0: "0 < length ?ps"
      using ne by simp
    from returned_skipped_flag[OF I(1)[OF 0] retn[OF 0] False]
    have "flags \<sigma> (pid (?ps ! 0))" .
    from I(6)[OF 0 this] show ?thesis
      by blast
  qed
  then obtain j where j: "j < length ?ps" "entered (?ps ! j)"
    by blast
  have "present (shared_db \<sigma>)"
    using returned_entered_lock_done[OF I(1)[OF j(1)] retn[OF j(1)] j(2) okn[OF j(1)]]
      I(2) I(7)[OF j(1)] calls_return_simps(2)[OF okn[OF j(1)]] j(1)
    by blast
  then obtain i where i: "i < length ?ps" "acquired (?ps ! i)"
    using I(2) by blast
  from returned_acquired_committed[OF I(1)[OF i(1)] retn[OF i(1)] i(2) okn[OF i(1)]]
  have c: "committed_by (?ps ! i)" .
  then obtain a where a: "committed_attempt (inv_env (?ps ! i)) = Some a"
    using committed_by_attempt by blast
  from sys_inv_inserters(3)[OF inv i(1) c] a batch_of_committed[OF a] show ?thesis
    by auto
qed

section \<open>Every invocation returns\<close>

lemma steps_left_outer_catch [simp]: "steps_left (outer_catch e) = 0"
  by (simp add: outer_catch_def)

lemma steps_left_returned: "steps_left c = 0 \<longleftrightarrow> returned c"
  by (cases c) simp_all

lemma steps_left_le_7: "steps_left c \<le> 7"
  by (cases c) simp_all

lemma inv_step_steps_left: "steps_left (fst (inv_step env c s)) \<le> steps_left c - 1"
  by (cases rule: inv_step_cases[of c s env])
    (simp_all add: inv_step_transaction inv_step_failed split: option.splits
       del: inv_step.simps)

lemma sys_step_steps_left:
  assumes "i < length (invocations \<sigma>)"
  shows "steps_left (inv_pc (invocations (sys_step k \<sigma>) ! i)) \<le>
           (if i = k then steps_left (inv_pc (invocations \<sigma> ! i)) - 1
            else steps_left (inv_pc (invocations \<sigma> ! i)))"
proof (cases "k < length (invocations \<sigma>)")
  case True
  show ?thesis
    using assms inv_step_steps_left[of "inv_env (invocations \<sigma> ! k)"
        "inv_pc (invocations \<sigma> ! k)" "view \<sigma> (invocations \<sigma> ! k)"]
    by (simp add: sys_step_simps(1)[OF True] nth_list_update after_step_def)
next
  case False
  with assms show ?thesis
    by (simp add: sys_step_out_of_range)
qed

lemma run_steps_left_mono:
  assumes "i < length (invocations \<sigma>)"
  shows "steps_left (inv_pc (invocations (run ks \<sigma>) ! i)) \<le>
           steps_left (inv_pc (invocations \<sigma> ! i))"
  using assms
proof (induction ks arbitrary: \<sigma>)
  case Nil
  then show ?case by simp
next
  case (Cons k ks)
  have "steps_left (inv_pc (invocations (run ks (sys_step k \<sigma>)) ! i)) \<le>
          steps_left (inv_pc (invocations (sys_step k \<sigma>) ! i))"
    using Cons.prems by (intro Cons.IH) simp
  also have "\<dots> \<le> steps_left (inv_pc (invocations \<sigma> ! i))"
    using sys_step_steps_left[OF Cons.prems, of k] by (simp split: if_splits)
  finally show ?case by simp
qed

lemma run_steps_left_scheduled:
  assumes "i < length (invocations \<sigma>)" and "i \<in> set ks"
  shows "steps_left (inv_pc (invocations (run ks \<sigma>) ! i)) \<le>
           steps_left (inv_pc (invocations \<sigma> ! i)) - 1"
  using assms
proof (induction ks arbitrary: \<sigma>)
  case Nil
  then show ?case by simp
next
  case (Cons k ks)
  have len: "i < length (invocations (sys_step k \<sigma>))"
    using Cons.prems(1) by simp
  show ?case
  proof (cases "k = i")
    case True
    have "steps_left (inv_pc (invocations (run ks (sys_step k \<sigma>)) ! i)) \<le>
            steps_left (inv_pc (invocations (sys_step k \<sigma>) ! i))"
      using len by (rule run_steps_left_mono)
    also have "\<dots> \<le> steps_left (inv_pc (invocations \<sigma> ! i)) - 1"
      using sys_step_steps_left[OF Cons.prems(1), of k] True by simp
    finally show ?thesis by simp
  next
    case False
    with Cons.prems(2) have "i \<in> set ks"
      by auto
    with len have "steps_left (inv_pc (invocations (run ks (sys_step k \<sigma>)) ! i)) \<le>
            steps_left (inv_pc (invocations (sys_step k \<sigma>) ! i)) - 1"
      by (rule Cons.IH)
    also have "\<dots> \<le> steps_left (inv_pc (invocations \<sigma> ! i)) - 1"
      using sys_step_steps_left[OF Cons.prems(1), of k] False by simp
    finally show ?thesis by simp
  qed
qed

lemma run_append: "run (ks @ ls) \<sigma> = run ls (run ks \<sigma>)"
  by (induction ks arbitrary: \<sigma>) simp_all

lemma rounds_steps_left:
  assumes "i < length (invocations \<sigma>)"
  shows "steps_left (inv_pc (invocations (run (rounds m (length (invocations \<sigma>))) \<sigma>) ! i)) \<le>
           steps_left (inv_pc (invocations \<sigma> ! i)) - m"
  using assms
proof (induction m arbitrary: \<sigma>)
  case 0
  then show ?case by (simp add: rounds_def)
next
  case (Suc m)
  let ?n = "length (invocations \<sigma>)"
  let ?\<tau> = "run [0..<?n] \<sigma>"
  have r: "rounds (Suc m) ?n = [0..<?n] @ rounds m (length (invocations ?\<tau>))"
    by (simp add: rounds_def)
  have len: "i < length (invocations ?\<tau>)"
    using Suc.prems by simp
  have "steps_left (inv_pc (invocations (run (rounds m (length (invocations ?\<tau>))) ?\<tau>) ! i)) \<le>
          steps_left (inv_pc (invocations ?\<tau> ! i)) - m"
    using len by (rule Suc.IH)
  also have "\<dots> \<le> (steps_left (inv_pc (invocations \<sigma> ! i)) - 1) - m"
    using run_steps_left_scheduled[OF Suc.prems, of "[0..<?n]"] Suc.prems
    by (simp add: diff_le_mono)
  finally show ?case
    unfolding r run_append by simp
qed

text \<open>
  From whatever state the system has reached, seven more steps of every invocation
  bring every invocation to its return.
\<close>

lemma all_return:
  "all_returned (run (ks @ rounds 7 (length ps)) (init ps))"
proof -
  let ?\<sigma> = "run ks (init ps)"
  have n: "length (invocations ?\<sigma>) = length ps"
    by simp
  have "returned (inv_pc (invocations (run (rounds 7 (length ps)) ?\<sigma>) ! i))"
    if "i < length ps" for i
  proof -
    have "steps_left (inv_pc (invocations (run (rounds 7 (length (invocations ?\<sigma>))) ?\<sigma>) ! i)) \<le>
            steps_left (inv_pc (invocations ?\<sigma> ! i)) - 7"
      using that by (intro rounds_steps_left) simp
    with steps_left_le_7[of "inv_pc (invocations ?\<sigma> ! i)"]
    have "steps_left (inv_pc (invocations (run (rounds 7 (length ps)) ?\<sigma>) ! i)) = 0"
      by (simp only: n)
    then show ?thesis
      by (simp add: steps_left_returned)
  qed
  then show ?thesis
    by (simp add: all_returned_def list_all_length run_append)
qed

section \<open>One invocation alone in the system\<close>

lemma state_eta:
  assumes "pending s = []"
  shows "\<lparr> populationAttempted = populationAttempted s, db = db s, pending = [],
           calls = calls s \<rparr> = s"
  using assms by (cases s) simp

text \<open>Between two steps of an invocation no transaction of its session is open.\<close>

lemma inv_step_pending:
  assumes "pending s = []"
  shows "pending (snd (inv_step env c s)) = []"
  using assms
  by (cases c)
    (simp_all add: Let_def withTransaction_eq outer_catch_def write_op_def log_call_def
       split: option.splits sum.splits)

lemma run_alone:
  assumes "pending s = []"
  shows
  "run (replicate n 0)
     \<lparr> flags = f(q := populationAttempted s), shared_db = db s,
       invocations = [\<lparr> pid = q, inv_env = env, inv_pc = c, inv_calls = calls s \<rparr>] \<rparr> =
   \<lparr> flags = f(q := populationAttempted (snd (inv_run n env (c, s)))),
     shared_db = db (snd (inv_run n env (c, s))),
     invocations =
       [\<lparr> pid = q, inv_env = env, inv_pc = fst (inv_run n env (c, s)),
          inv_calls = calls (snd (inv_run n env (c, s))) \<rparr>] \<rparr>"
  using assms
proof (induction n arbitrary: c s)
  case 0
  show ?case by simp
next
  case (Suc n)
  obtain c1 s1 where x: "inv_step env c s = (c1, s1)"
    by (cases "inv_step env c s")
  have p1: "pending s1 = []"
    using inv_step_pending[OF Suc.prems, of env c] x by simp
  have "sys_step 0
          \<lparr> flags = f(q := populationAttempted s), shared_db = db s,
            invocations = [\<lparr> pid = q, inv_env = env, inv_pc = c, inv_calls = calls s \<rparr>] \<rparr> =
        \<lparr> flags = f(q := populationAttempted s1), shared_db = db s1,
          invocations = [\<lparr> pid = q, inv_env = env, inv_pc = c1, inv_calls = calls s1 \<rparr>] \<rparr>"
    using x by (simp add: sys_step_def after_step_def stepped_def view_def
          state_eta[OF Suc.prems] fun_upd_same del: inv_step.simps fun_upd_apply)
  then have "run (replicate (Suc n) 0)
          \<lparr> flags = f(q := populationAttempted s), shared_db = db s,
            invocations = [\<lparr> pid = q, inv_env = env, inv_pc = c, inv_calls = calls s \<rparr>] \<rparr> =
        run (replicate n 0)
          \<lparr> flags = f(q := populationAttempted s1), shared_db = db s1,
            invocations = [\<lparr> pid = q, inv_env = env, inv_pc = c1, inv_calls = calls s1 \<rparr>] \<rparr>"
    by (simp only: replicate_Suc run.simps)
  also note Suc.IH[OF p1]
  finally show ?case
    using x by (simp del: inv_step.simps fun_upd_apply)
qed

lemma rounds_7_1: "rounds 7 1 = replicate 7 0"
  by (simp add: rounds_def eval_nat_numeral)

lemma seven: "(7::nat) = Suc (Suc (Suc (Suc (Suc (Suc (Suc 0))))))"
  by simp

text \<open>Alone in the system, an invocation does what the routine does.\<close>

lemma alone_is_routine:
  "run (rounds 7 1) (init [(q, env)]) =
     \<lparr> flags = (\<lambda>q. False)(q := populationAttempted (snd (populate_with_mock_data env fresh))),
       shared_db = db (snd (populate_with_mock_data env fresh)),
       invocations =
         [\<lparr> pid = q, inv_env = env,
            inv_pc = Returned (fst (populate_with_mock_data env fresh)),
            inv_calls = calls (snd (populate_with_mock_data env fresh)) \<rparr>] \<rparr>"
proof -
  have p: "inv_run 7 env (Start, fresh) =
     (case populate_with_mock_data env fresh of (r, s1) \<Rightarrow> (Returned r, s1))"
    unfolding seven by (rule populate_steps)
  have "(\<lambda>q. False) = (\<lambda>q. False)(q := False)"
    by (simp add: fun_eq_iff)
  then have i: "init [(q, env)] =
      \<lparr> flags = (\<lambda>q. False)(q := populationAttempted fresh), shared_db = db fresh,
        invocations = [\<lparr> pid = q, inv_env = env, inv_pc = Start, inv_calls = calls fresh \<rparr>] \<rparr>"
    by (simp add: init_def fresh_def del: fun_upd_apply)
  have e: "pending fresh = []"
    by simp
  show ?thesis
    unfolding rounds_7_1 i run_alone[OF e] p by (simp add: split_beta del: fun_upd_apply)
qed

section \<open>Concurrent seeding\<close>

text \<open>
  Claim C1. Any number of invocations, at least one, in any processes, run
  concurrently against an unused datastore, their steps interleaved in any order.
  When the datastore calls return (those that lead to the transaction, and
  \<^verbatim>\<open>withTransaction\<close>, after however many runs of its callback) and all invocations
  have returned, exactly one invocation has made the batch insert, and the submissions
  collection holds exactly the ten documents of the batch of the run that committed.
  Whatever the datastore answers, in every state reached at most one invocation has
  made the batch insert and the collection is empty or holds exactly one batch, that
  of the run that committed: never two copies, never part of a batch. Every
  invocation returns: from any state reached, seven more steps of each bring all to
  their return.
\<close>

theorem C1_at_most_one_seed:
  "(ps \<noteq> [] \<and> list_all calls_return (map snd ps) \<and> all_returned (run ks (init ps)) \<longrightarrow>
      (\<exists>p a. inserters (run ks (init ps)) = [p] \<and>
           committed_attempt (inv_env p) = Some a \<and>
           map snd (contact_form_submissions (shared_db (run ks (init ps)))) =
             mockSubmissions (now_batch a) \<and>
           length (contact_form_submissions (shared_db (run ks (init ps)))) = 10))
   \<and> length (inserters (run ks (init ps))) \<le> 1
   \<and> (contact_form_submissions (shared_db (run ks (init ps))) = [] \<or>
      (\<exists>p a. inserters (run ks (init ps)) = [p] \<and>
           committed_attempt (inv_env p) = Some a \<and>
           map snd (contact_form_submissions (shared_db (run ks (init ps)))) =
             mockSubmissions (now_batch a) \<and>
           length (contact_form_submissions (shared_db (run ks (init ps)))) = 10))
   \<and> all_returned (run (ks @ rounds 7 (length ps)) (init ps))"
proof -
  let ?\<sigma> = "run ks (init ps)"
  have inv: "sys_inv ?\<sigma>"
    by (rule sys_inv_reached)
  have 1: "length (inserters ?\<sigma>) \<le> 1"
    using inv by (rule sys_inv_inserters(1))
  have 3: "contact_form_submissions (shared_db ?\<sigma>) = [] \<or>
      (\<exists>p a. inserters ?\<sigma> = [p] \<and> committed_attempt (inv_env p) = Some a \<and>
           map snd (contact_form_submissions (shared_db ?\<sigma>)) =
             mockSubmissions (now_batch a) \<and>
           length (contact_form_submissions (shared_db ?\<sigma>)) = 10)"
  proof (cases "contact_form_submissions (shared_db ?\<sigma>) = []")
    case True
    then show ?thesis by simp
  next
    case False
    with sys_inv_inserters(2)[OF inv] obtain p where
      p: "inserters ?\<sigma> = [p]" "contact_form_submissions (shared_db ?\<sigma>) = batch_of p"
      by blast
    with False obtain a where a: "committed_attempt (inv_env p) = Some a"
      by (cases "committed_attempt (inv_env p)") (simp_all add: batch_of_def)
    with p have "inserters ?\<sigma> = [p] \<and> committed_attempt (inv_env p) = Some a \<and>
           map snd (contact_form_submissions (shared_db ?\<sigma>)) =
             mockSubmissions (now_batch a) \<and>
           length (contact_form_submissions (shared_db ?\<sigma>)) = 10"
      by (simp add: batch_of_committed one_batch_docs)
    then show ?thesis
      by blast
  qed
  have 4: "all_returned (run (ks @ rounds 7 (length ps)) (init ps))"
    by (rule all_return)
  have 5: "\<exists>p a. inserters ?\<sigma> = [p] \<and> committed_attempt (inv_env p) = Some a \<and>
           map snd (contact_form_submissions (shared_db ?\<sigma>)) =
             mockSubmissions (now_batch a) \<and>
           length (contact_form_submissions (shared_db ?\<sigma>)) = 10"
    if "ps \<noteq> []" "list_all calls_return (map snd ps)" "all_returned ?\<sigma>"
  proof -
    have ne: "invocations ?\<sigma> \<noteq> []"
    proof
      assume e: "invocations ?\<sigma> = []"
      have "length ps = length (invocations ?\<sigma>)"
        by simp
      also have "\<dots> = 0"
        by (simp only: e list.size)
      finally show False
        using that(1) by simp
    qed
    have ok: "list_all calls_return (map inv_env (invocations ?\<sigma>))"
      using that(2) by simp
    from sys_inv_all_returned[OF inv ne ok that(3)]
    obtain p a where "inserters ?\<sigma> = [p]" "committed_attempt (inv_env p) = Some a"
      "contact_form_submissions (shared_db ?\<sigma>) = one_batch a"
      by (elim exE conjE)
    then have "inserters ?\<sigma> = [p] \<and> committed_attempt (inv_env p) = Some a \<and>
           map snd (contact_form_submissions (shared_db ?\<sigma>)) =
             mockSubmissions (now_batch a) \<and>
           length (contact_form_submissions (shared_db ?\<sigma>)) = 10"
      by (simp add: one_batch_docs)
    then show ?thesis
      by blast
  qed
  then have 6: "ps \<noteq> [] \<and> list_all calls_return (map snd ps) \<and> all_returned ?\<sigma> \<longrightarrow>
      (\<exists>p a. inserters ?\<sigma> = [p] \<and> committed_attempt (inv_env p) = Some a \<and>
           map snd (contact_form_submissions (shared_db ?\<sigma>)) =
             mockSubmissions (now_batch a) \<and>
           length (contact_form_submissions (shared_db ?\<sigma>)) = 10)"
    by (intro impI) (elim conjE)
  from 6 1 3 4 show ?thesis
    by (intro conjI)
qed

theorem C1_at_most_one_seed_witness:
  "three_invocations \<noteq> []
   \<and> list_all calls_return (map snd three_invocations)
   \<and> all_returned (run (rounds 7 3) (init three_invocations))
   \<and> length (inserters (run (rounds 7 3) (init three_invocations))) = 1
   \<and> map snd (contact_form_submissions (shared_db (run (rounds 7 3) (init three_invocations)))) =
       mockSubmissions (\<lambda>i. 1700000000000)
   \<and> length (contact_form_submissions (shared_db (run (rounds 7 3) (init three_invocations)))) = 10"
proof -
  let ?\<sigma> = "run (rounds 7 3) (init three_invocations)"
  have a: "three_invocations \<noteq> []"
    by (simp add: three_invocations_def)
  have b: "list_all calls_return (map snd three_invocations)"
    by (simp add: three_invocations_def calls_return_def)
  have l: "length three_invocations = 3"
    by (simp add: three_invocations_def)
  have "all_returned (run ([] @ rounds 7 (length three_invocations)) (init three_invocations))"
    using C1_at_most_one_seed[of three_invocations "[]"] by (elim conjE)
  then have c: "all_returned ?\<sigma>"
    by (simp only: l append_Nil)
  have "three_invocations \<noteq> [] \<and> list_all calls_return (map snd three_invocations) \<and>
          all_returned ?\<sigma> \<longrightarrow>
        (\<exists>p a. inserters ?\<sigma> = [p] \<and> committed_attempt (inv_env p) = Some a \<and>
           map snd (contact_form_submissions (shared_db ?\<sigma>)) =
             mockSubmissions (now_batch a) \<and>
           length (contact_form_submissions (shared_db ?\<sigma>)) = 10)"
    using C1_at_most_one_seed[of three_invocations "rounds 7 3"] by (elim conjE)
  with a b c obtain p a' where p: "inserters ?\<sigma> = [p]"
    "committed_attempt (inv_env p) = Some a'"
    "map snd (contact_form_submissions (shared_db ?\<sigma>)) = mockSubmissions (now_batch a')"
    "length (contact_form_submissions (shared_db ?\<sigma>)) = 10"
    by blast
  have "p \<in> set (inserters ?\<sigma>)"
    by (simp only: p(1) list.set_intros)
  then have "p \<in> set (invocations ?\<sigma>)"
    by (simp add: inserters_def)
  then have "inv_env p \<in> set (map inv_env (invocations ?\<sigma>))"
    by (simp only: set_map image_eqI)
  then have "inv_env p \<in> set (map snd three_invocations)"
    by (simp only: run_envs init_envs)
  then have "inv_env p = env_completion_fails_once \<or> inv_env p = env_ok"
    by (simp add: three_invocations_def)
  then have "committed_attempt (inv_env p) = Some attempt_ok"
    by (elim disjE) simp_all
  with p(2) have e: "now_batch a' = (\<lambda>i. 1700000000000)"
    by simp
  have "length (inserters ?\<sigma>) = 1"
    by (simp add: p(1))
  with a b c p(3,4) e show ?thesis
    by (simp only: simp_thms)
qed

text \<open>
  One invocation alone whose completion update loses its connection once: the driver
  runs the callback again, the invocation makes the batch insert twice, and the
  collection ends with one batch of ten.
\<close>

lemma retry_seeds_once:
  "map (\<lambda>p. batch_inserts (inv_calls p))
     (invocations (run (rounds 7 1) (init [(0, env_completion_fails_once)]))) = [2]
   \<and> length (contact_form_submissions
        (shared_db (run (rounds 7 1) (init [(0, env_completion_fails_once)])))) = 10"
proof -
  have n: "map_of (mock_data_execution (db fresh)) seed_id = None"
    by simp
  have p: "snd (populate_with_mock_data env_completion_fails_once fresh) =
          snd (run_transaction env_completion_fails_once
                 (lock_acquired env_completion_fails_once fresh))"
    by (simp add: populate_acquired[OF n])
  have h: "\<not> populationAttempted fresh" "reaches_transaction env_completion_fails_once"
    "committed_attempt env_completion_fails_once = Some attempt_ok"
    by simp_all
  have 1: "batch_inserts (calls (snd (populate_with_mock_data env_completion_fails_once fresh))) = 2"
    unfolding p by (simp add: run_transaction_batch_inserts)
  have 2: "length (contact_form_submissions
             (db (snd (populate_with_mock_data env_completion_fails_once fresh)))) = 10"
    unfolding populate_success(2)[OF h(1) n h(2,3)]
    by (simp add: insertMany_def length_mockSubmissions)
  from 1 2 show ?thesis
    unfolding alone_is_routine by simp
qed

text \<open>
  The calls have to return for a batch to be there: one invocation alone that cannot
  reach the datastore for the conditional insert returns with the error, and no
  invocation has made the batch insert.
\<close>

lemma lock_outage_no_seed:
  "all_returned (run (rounds 7 1) (init one_invocation_outage))
   \<and> inserters (run (rounds 7 1) (init one_invocation_outage)) = []
   \<and> contact_form_submissions (shared_db (run (rounds 7 1) (init one_invocation_outage))) = []"
proof -
  have p: "populate_with_mock_data env_lock_outage fresh =
          (Inl network_error,
           log_call (Call_updateOne (lock_update env_lock_outage) True False)
             (log_call Call_getDb (fresh\<lparr> populationAttempted := True \<rparr>)))"
    by (simp add: populate_with_mock_data_def try_block_def Let_def)
  have r: "run (rounds 7 1) (init one_invocation_outage) =
     \<lparr> flags = (\<lambda>q. False)(0 := populationAttempted (snd (populate_with_mock_data env_lock_outage fresh))),
       shared_db = db (snd (populate_with_mock_data env_lock_outage fresh)),
       invocations =
         [\<lparr> pid = 0, inv_env = env_lock_outage,
            inv_pc = Returned (fst (populate_with_mock_data env_lock_outage fresh)),
            inv_calls = calls (snd (populate_with_mock_data env_lock_outage fresh)) \<rparr>] \<rparr>"
    unfolding one_invocation_outage_def by (rule alone_is_routine)
  have 1: "all_returned (run (rounds 7 1) (init one_invocation_outage))"
    unfolding r by (simp add: all_returned_def)
  have 2: "inserters (run (rounds 7 1) (init one_invocation_outage)) = []"
    unfolding r p by (simp add: inserters_def)
  have 3: "contact_form_submissions (shared_db (run (rounds 7 1) (init one_invocation_outage))) = []"
    unfolding r p by simp
  from 1 2 3 show ?thesis
    by (intro conjI)
qed

end
